theory Spec2Isabelle
  imports Main "HOL-Library.Char_ord" "HOL-Library.List_Lexorder" "HOL-Library.Sublist"
begin

section \<open>The directory watcher of pmotool/connectors/simple_watcher.py\<close>

text \<open>
  The connector polls a directory, posts every new stable \<open>.txt\<close> file to a webhook
  and moves delivered files into a \<open>processed\<close> subdirectory. Everything the function
  \<open>watch_and_post\<close> does to the outside (file system, clock, network) goes through
  library calls; the model takes these calls as a record of operations on an arbitrary
  world \<open>'w\<close>, so that the theorems hold for every behaviour of the environment, and
  keeps the control flow of the source as it is written.

  A Python \<open>str\<close> is a \<open>string\<close> holding its UTF-8 encoding; byte order on UTF-8
  is code point order, so \<open>sorted\<close> is the lexicographic order on \<open>char list\<close>.
\<close>

subsection \<open>String and path helpers of the standard library\<close>

type_synonym path = string

definition lower_char :: "char \<Rightarrow> char" where
  \<comment> \<open>\<open>str.lower\<close> on one byte: only ASCII letters change; the bytes of a
      non-ASCII code point never map to an ASCII character.\<close>
  "lower_char c =
     (let n = (of_char c :: nat) in if 65 \<le> n \<and> n \<le> 90 then char_of (n + 32) else c)"

definition lower :: "string \<Rightarrow> string" where
  "lower s = map lower_char s"

definition endswith :: "string \<Rightarrow> string \<Rightarrow> bool" where
  "endswith s suf = (length suf \<le> length s \<and> drop (length s - length suf) s = suf)"

definition os_path_join :: "path \<Rightarrow> path \<Rightarrow> path" where
  \<comment> \<open>\<open>posixpath.join(a, b)\<close>\<close>
  "os_path_join a b =
     (if take 1 b = ''/'' then b
      else if a = [] \<or> endswith a ''/'' then a @ b
      else a @ ''/'' @ b)"

definition rfind :: "string \<Rightarrow> char \<Rightarrow> int" where
  \<comment> \<open>\<open>s.rfind(c)\<close>: the highest index of \<open>c\<close>, or -1\<close>
  "rfind s c =
     (case filter (\<lambda>i. s ! i = c) (rev [0 ..< length s]) of
        [] \<Rightarrow> - 1
      | i # _ \<Rightarrow> int i)"

definition os_path_splitext :: "path \<Rightarrow> string \<times> string" where
  \<comment> \<open>\<open>posixpath.splitext\<close>: the extension starts at the last dot of the last
      component, unless only dots precede it there.\<close>
  "os_path_splitext p =
     (let sepIndex = rfind p CHR ''/'';
          dotIndex = rfind p CHR ''.''
      in if dotIndex > sepIndex \<and>
            filter (\<lambda>c. c \<noteq> CHR ''.'')
              (take (nat dotIndex - nat (sepIndex + 1)) (drop (nat (sepIndex + 1)) p)) \<noteq> []
         then (take (nat dotIndex) p, drop (nat dotIndex) p)
         else (p, []))"

subsection \<open>The timestamp\<close>

record datetime =
  year :: int
  month :: int
  day :: int
  hour :: int
  minute :: int
  second :: int
  microsecond :: int

definition digit :: "nat \<Rightarrow> char" where
  "digit n = char_of (48 + n)"

fun dec :: "nat \<Rightarrow> string" where
  "dec n = (if n < 10 then [digit n] else dec (n div 10) @ [digit (n mod 10)])"

declare dec.simps [simp del]

definition zpad :: "nat \<Rightarrow> nat \<Rightarrow> string" where
  \<comment> \<open>decimal, zero-padded to at least \<open>w\<close> digits\<close>
  "zpad w n = replicate (w - length (dec n)) CHR ''0'' @ dec n"

definition strftime :: "datetime \<Rightarrow> string" where
  \<comment> \<open>\<open>dt.strftime('%Y%m%dT%H%M%SZ')\<close>; the fields of a \<open>datetime\<close> are never
      negative\<close>
  "strftime dt =
     zpad 4 (nat (year dt)) @ zpad 2 (nat (month dt)) @ zpad 2 (nat (day dt)) @ ''T'' @
     zpad 2 (nat (hour dt)) @ zpad 2 (nat (minute dt)) @ zpad 2 (nat (second dt)) @ ''Z''"

subsection \<open>Reading a file as UTF-8 text\<close>

definition byte :: "char \<Rightarrow> nat" where
  "byte c = of_char c"

definition cont :: "char \<Rightarrow> bool" where
  \<comment> \<open>a continuation byte \<open>10xxxxxx\<close>\<close>
  "cont c = (128 \<le> byte c \<and> byte c \<le> 191)"

fun utf8_valid :: "string \<Rightarrow> bool" where
  \<comment> \<open>well-formed UTF-8 as the strict decoder accepts it: no overlong forms, no
      surrogates, nothing above U+10FFFF\<close>
  "utf8_valid [] = True"
| "utf8_valid (b0 # rest) =
     (let n = byte b0 in
      if n < 128 then utf8_valid rest
      else if 194 \<le> n \<and> n \<le> 223 then
        (case rest of b1 # r \<Rightarrow> cont b1 \<and> utf8_valid r | _ \<Rightarrow> False)
      else if 224 \<le> n \<and> n \<le> 239 then
        (case rest of
           b1 # b2 # r \<Rightarrow>
             cont b1 \<and> cont b2 \<and> (n = 224 \<longrightarrow> 160 \<le> byte b1) \<and>
             (n = 237 \<longrightarrow> byte b1 \<le> 159) \<and> utf8_valid r
         | _ \<Rightarrow> False)
      else if 240 \<le> n \<and> n \<le> 244 then
        (case rest of
           b1 # b2 # b3 # r \<Rightarrow>
             cont b1 \<and> cont b2 \<and> cont b3 \<and> (n = 240 \<longrightarrow> 144 \<le> byte b1) \<and>
             (n = 244 \<longrightarrow> byte b1 \<le> 143) \<and> utf8_valid r
         | _ \<Rightarrow> False)
      else False)"

fun universal_newlines :: "string \<Rightarrow> string" where
  \<comment> \<open>text mode with the default \<open>newline=None\<close>: CR LF and a lone CR are read as LF\<close>
  "universal_newlines [] = []"
| "universal_newlines [c] = (if c = CHR 0x0D then [CHR 0x0A] else [c])"
| "universal_newlines (c # d # cs) =
     (if c = CHR 0x0D \<and> d = CHR 0x0A then CHR 0x0A # universal_newlines cs
      else if c = CHR 0x0D then CHR 0x0A # universal_newlines (d # cs)
      else c # universal_newlines (d # cs))"

subsection \<open>Exceptions, events and the operations of the environment\<close>

datatype exn =
    KeyboardInterrupt
  | FileNotFoundError
  | UnicodeDecodeError
  | OtherException string
  | OtherBaseException string

fun is_Exception :: "exn \<Rightarrow> bool" where
  \<comment> \<open>what \<open>except Exception\<close> catches: everything but the exceptions that derive
      from \<open>BaseException\<close> alone\<close>
  "is_Exception KeyboardInterrupt = False"
| "is_Exception (OtherBaseException _) = False"
| "is_Exception _ = True"

datatype json = JString string | JBool bool | JArray "json list"

type_synonym payload = "(string \<times> json) list"

record response =
  status_code :: int
  resp_text :: string

datatype duration = Millis nat | Seconds int

datatype probe = First | Second

text \<open>
  The calls a run makes, in order. \<open>Getsize\<close> records which of the two probes of lines 62
  and 64 it is; \<open>Post\<close> and \<open>Utcnow\<close> record, besides the arguments of the call, the file
  in whose iteration they are made. The constant arguments of the POST (the header, the
  timeout of 10 seconds) and the calls of the logger are left out.
\<close>

datatype event =
    Abspath path
  | Exists path
  | Makedirs path
  | Listdir path
  | Getsize probe path
  | Sleep duration
  | OpenRead path
  | Post path string payload
  | Utcnow path
  | Rename path path

record 'w ops =
  os_path_abspath :: "path \<Rightarrow> 'w \<Rightarrow> (exn + path) \<times> 'w"
  os_path_exists :: "path \<Rightarrow> 'w \<Rightarrow> (exn + bool) \<times> 'w"
  os_makedirs :: "path \<Rightarrow> 'w \<Rightarrow> (exn + unit) \<times> 'w"
  os_listdir :: "path \<Rightarrow> 'w \<Rightarrow> (exn + string list) \<times> 'w"
  os_path_commonpath :: "path list \<Rightarrow> exn + path"
  os_path_getsize :: "path \<Rightarrow> 'w \<Rightarrow> (exn + nat) \<times> 'w"
  time_sleep :: "duration \<Rightarrow> 'w \<Rightarrow> (exn + unit) \<times> 'w"
  read_bytes :: "path \<Rightarrow> 'w \<Rightarrow> (exn + string) \<times> 'w"
  requests_post :: "string \<Rightarrow> payload \<Rightarrow> 'w \<Rightarrow> (exn + response) \<times> 'w"
  datetime_utcnow :: "'w \<Rightarrow> (exn + datetime) \<times> 'w"
  os_rename :: "path \<Rightarrow> path \<Rightarrow> 'w \<Rightarrow> (exn + unit) \<times> 'w"

record 'w state =
  seen :: "path set"
  world :: 'w
  trace :: "event list"

datatype 'w outcome = Normal "'w state" | Raised exn "'w state"

fun state_of :: "'w outcome \<Rightarrow> 'w state" where
  "state_of (Normal st) = st"
| "state_of (Raised e st) = st"

fun is_Normal :: "'w outcome \<Rightarrow> bool" where
  "is_Normal (Normal st) = True"
| "is_Normal (Raised e st) = False"

definition call :: "('w \<Rightarrow> 'r \<times> 'w) \<Rightarrow> event \<Rightarrow> 'w state \<Rightarrow> 'r \<times> 'w state" where
  \<comment> \<open>one library call: the world moves on and the call is recorded\<close>
  "call f ev st =
     (case f (world st) of (r, w') \<Rightarrow> (r, st\<lparr>world := w', trace := trace st @ [ev]\<rparr>))"

subsection \<open>The body of \<open>watch_and_post\<close>\<close>

definition ensure_dir :: "'w ops \<Rightarrow> path \<Rightarrow> 'w state \<Rightarrow> 'w outcome" where
  "ensure_dir ops p st =
     (case call (os_path_exists ops p) (Exists p) st of
        (Inl e, st1) \<Rightarrow> Raised e st1
      | (Inr True, st1) \<Rightarrow> Normal st1
      | (Inr False, st1) \<Rightarrow>
          (case call (os_makedirs ops p) (Makedirs p) st1 of
             (Inl e, st2) \<Rightarrow> Raised e st2
           | (Inr u, st2) \<Rightarrow> Normal st2))"

definition in_processed :: "'w ops \<Rightarrow> path \<Rightarrow> path \<Rightarrow> exn + bool" where
  \<comment> \<open>lines 52-57: \<open>Inr True\<close> is the \<open>continue\<close> of line 54; an exception of
      \<open>commonpath\<close> is passed over\<close>
  "in_processed ops full processed_dir =
     (case os_path_commonpath ops [full, processed_dir] of
        Inr c \<Rightarrow> Inr (c = processed_dir)
      | Inl e \<Rightarrow> if is_Exception e then Inr False else Inl e)"

definition probe_stable :: "'w ops \<Rightarrow> path \<Rightarrow> 'w state \<Rightarrow> (exn + bool) \<times> 'w state" where
  \<comment> \<open>the \<open>try\<close> body of lines 62-67: \<open>Inr True\<close> when both sizes are equal\<close>
  "probe_stable ops full st =
     (case call (os_path_getsize ops full) (Getsize First full) st of
        (Inl e, st1) \<Rightarrow> (Inl e, st1)
      | (Inr size1, st1) \<Rightarrow>
          (case call (time_sleep ops (Millis 200)) (Sleep (Millis 200)) st1 of
             (Inl e, st2) \<Rightarrow> (Inl e, st2)
           | (Inr u, st2) \<Rightarrow>
               (case call (os_path_getsize ops full) (Getsize Second full) st2 of
                  (Inl e, st3) \<Rightarrow> (Inl e, st3)
                | (Inr size2, st3) \<Rightarrow> (Inr (size1 = size2), st3))))"

definition read_text :: "'w ops \<Rightarrow> path \<Rightarrow> 'w state \<Rightarrow> (exn + string) \<times> 'w state" where
  \<comment> \<open>lines 73-74: \<open>open(full, 'r', encoding='utf-8')\<close> and \<open>fh.read()\<close>\<close>
  "read_text ops full st =
     (case call (read_bytes ops full) (OpenRead full) st of
        (Inl e, st1) \<Rightarrow> (Inl e, st1)
      | (Inr bs, st1) \<Rightarrow>
          if utf8_valid bs then (Inr (universal_newlines bs), st1)
          else (Inl UnicodeDecodeError, st1))"

definition archive_name :: "string \<Rightarrow> datetime \<Rightarrow> string" where
  \<comment> \<open>line 95: \<open>f"{meeting_id}.{ts}.txt"\<close>\<close>
  "archive_name meeting_id now = meeting_id @ ''.'' @ strftime now @ ''.txt''"

definition archive ::
  "'w ops \<Rightarrow> path \<Rightarrow> path \<Rightarrow> string \<Rightarrow> 'w state \<Rightarrow> (exn + unit) \<times> 'w state" where
  \<comment> \<open>lines 94-100; an exception of \<open>os.rename\<close> is logged and passed over\<close>
  "archive ops processed_dir full meeting_id st =
     (case call (datetime_utcnow ops) (Utcnow full) st of
        (Inl e, st1) \<Rightarrow> (Inl e, st1)
      | (Inr now, st1) \<Rightarrow>
          (let dest = os_path_join processed_dir (archive_name meeting_id now) in
           case call (os_rename ops full dest) (Rename full dest) st1 of
             (Inl e, st2) \<Rightarrow> if is_Exception e then (Inr (), st2) else (Inl e, st2)
           | (Inr u, st2) \<Rightarrow> (Inr (), st2)))"

definition make_payload :: "string \<Rightarrow> string \<Rightarrow> bool \<Rightarrow> payload" where
  \<comment> \<open>lines 81-87\<close>
  "make_payload meeting_id transcript stage =
     [(''meeting_id'', JString meeting_id),
      (''title'', JString meeting_id),
      (''transcript'', JString transcript),
      (''attendees'', JArray []),
      (''stage'', JBool stage)]"

definition mark_seen :: "path \<Rightarrow> 'w state \<Rightarrow> 'w state" where
  \<comment> \<open>\<open>seen.add(full)\<close>\<close>
  "mark_seen full st = st\<lparr>seen := insert full (seen st)\<rparr>"

definition deliver ::
  "'w ops \<Rightarrow> string \<Rightarrow> bool \<Rightarrow> path \<Rightarrow> string \<Rightarrow> path \<Rightarrow> 'w state \<Rightarrow> 'w outcome" where
  \<comment> \<open>lines 71-110, for a file that passed the size probe\<close>
  "deliver ops webhook_url stage processed_dir fn full st =
     (case read_text ops full st of
        (Inl e, st1) \<Rightarrow>
          if is_Exception e then Normal (mark_seen full st1) else Raised e st1
      | (Inr transcript, st1) \<Rightarrow>
          (let meeting_id = fst (os_path_splitext fn);
               payload = make_payload meeting_id transcript stage
           in case call (requests_post ops webhook_url payload)
                     (Post full webhook_url payload) st1 of
                (Inl e, st2) \<Rightarrow> if is_Exception e then Normal st2 else Raised e st2
              | (Inr resp, st2) \<Rightarrow>
                  if 200 \<le> status_code resp \<and> status_code resp < 300 then
                    (case archive ops processed_dir full meeting_id st2 of
                       (Inl e, st3) \<Rightarrow>
                         if is_Exception e then Normal st3 else Raised e st3
                     | (Inr u, st3) \<Rightarrow> Normal (mark_seen full st3))
                  else Normal st2))"

definition process_file ::
  "'w ops \<Rightarrow> string \<Rightarrow> bool \<Rightarrow> path \<Rightarrow> path \<Rightarrow> string \<Rightarrow> 'w state \<Rightarrow> 'w outcome" where
  \<comment> \<open>one iteration of the \<open>for\<close> loop, lines 50-110; \<open>Normal\<close> is the end of the
      iteration (by \<open>continue\<close> or by reaching line 110), \<open>Raised\<close> an exception that
      no handler inside the loop catches\<close>
  "process_file ops webhook_url stage directory processed_dir fn st =
     (let full = os_path_join directory fn in
      case in_processed ops full processed_dir of
        Inl e \<Rightarrow> Raised e st
      | Inr True \<Rightarrow> Normal st
      | Inr False \<Rightarrow>
          if full \<in> seen st then Normal st
          else
            (case probe_stable ops full st of
               (Inl e, st1) \<Rightarrow> if is_Exception e then Normal st1 else Raised e st1
             | (Inr False, st1) \<Rightarrow> Normal st1
             | (Inr True, st1) \<Rightarrow>
                 deliver ops webhook_url stage processed_dir fn full st1))"

fun for_files ::
  "'w ops \<Rightarrow> string \<Rightarrow> bool \<Rightarrow> path \<Rightarrow> path \<Rightarrow> string list \<Rightarrow> 'w state \<Rightarrow> 'w outcome" where
  "for_files ops webhook_url stage directory processed_dir [] st = Normal st"
| "for_files ops webhook_url stage directory processed_dir (fn # fns) st =
     (case process_file ops webhook_url stage directory processed_dir fn st of
        Normal st1 \<Rightarrow> for_files ops webhook_url stage directory processed_dir fns st1
      | Raised e st1 \<Rightarrow> Raised e st1)"

definition is_txt :: "string \<Rightarrow> bool" where
  \<comment> \<open>line 43: \<open>f.lower().endswith('.txt')\<close>\<close>
  "is_txt f = endswith (lower f) ''.txt''"

definition list_files :: "'w ops \<Rightarrow> path \<Rightarrow> 'w state \<Rightarrow> (exn + string list) \<times> 'w state" where
  \<comment> \<open>lines 42-47: only \<open>FileNotFoundError\<close> has a handler\<close>
  "list_files ops directory st =
     (case call (os_listdir ops directory) (Listdir directory) st of
        (Inr names, st1) \<Rightarrow> (Inr (filter is_txt names), st1)
      | (Inl e, st1) \<Rightarrow>
          if e = FileNotFoundError then
            (case ensure_dir ops directory st1 of
               Normal st2 \<Rightarrow> (Inr [], st2)
             | Raised e' st2 \<Rightarrow> (Inl e', st2))
          else (Inl e, st1))"

definition cycle ::
  "'w ops \<Rightarrow> string \<Rightarrow> bool \<Rightarrow> int \<Rightarrow> path \<Rightarrow> path \<Rightarrow> 'w state \<Rightarrow> 'w outcome" where
  \<comment> \<open>one iteration of \<open>while True\<close>, lines 42-112\<close>
  "cycle ops webhook_url stage poll_interval directory processed_dir st =
     (case list_files ops directory st of
        (Inl e, st1) \<Rightarrow> Raised e st1
      | (Inr files, st1) \<Rightarrow>
          (case for_files ops webhook_url stage directory processed_dir (sort files) st1 of
             Raised e st2 \<Rightarrow> Raised e st2
           | Normal st2 \<Rightarrow>
               (case call (time_sleep ops (Seconds poll_interval))
                       (Sleep (Seconds poll_interval)) st2 of
                  (Inl e, st3) \<Rightarrow> Raised e st3
                | (Inr u, st3) \<Rightarrow> Normal st3)))"

fun while_true ::
  "nat \<Rightarrow> 'w ops \<Rightarrow> string \<Rightarrow> bool \<Rightarrow> int \<Rightarrow> path \<Rightarrow> path \<Rightarrow> 'w state \<Rightarrow> 'w outcome" where
  \<comment> \<open>the first \<open>n\<close> iterations of the unbounded loop; \<open>Normal\<close> after \<open>n\<close>
      iterations means that the loop is still running\<close>
  "while_true 0 ops webhook_url stage poll_interval directory processed_dir st = Normal st"
| "while_true (Suc n) ops webhook_url stage poll_interval directory processed_dir st =
     (case cycle ops webhook_url stage poll_interval directory processed_dir st of
        Normal st1 \<Rightarrow>
          while_true n ops webhook_url stage poll_interval directory processed_dir st1
      | Raised e st1 \<Rightarrow> Raised e st1)"

datatype 'w result =
    Running "'w state"
  | Returned "'w state"
  | Uncaught exn "'w state"

definition watch_and_post ::
  "nat \<Rightarrow> 'w ops \<Rightarrow> path \<Rightarrow> string \<Rightarrow> bool \<Rightarrow> int \<Rightarrow> string \<Rightarrow> 'w \<Rightarrow> 'w result" where
  \<comment> \<open>the function observed for \<open>n\<close> iterations of its loop: \<open>Running\<close> while the
      loop goes on, \<open>Returned\<close> after the \<open>KeyboardInterrupt\<close> handler of line 113,
      \<open>Uncaught\<close> when an exception leaves the function\<close>
  "watch_and_post n ops directory webhook_url stage poll_interval processed_dir_name w =
     (let st = \<lparr>seen = {}, world = w, trace = []\<rparr> in
      case call (os_path_abspath ops directory) (Abspath directory) st of
        (Inl e, st1) \<Rightarrow> Uncaught e st1
      | (Inr directory', st1) \<Rightarrow>
          (let processed_dir = os_path_join directory' processed_dir_name in
           case ensure_dir ops directory' st1 of
             Raised e st2 \<Rightarrow> Uncaught e st2
           | Normal st2 \<Rightarrow>
               (case ensure_dir ops processed_dir st2 of
                  Raised e st3 \<Rightarrow> Uncaught e st3
                | Normal st3 \<Rightarrow>
                    (case while_true n ops webhook_url stage poll_interval
                            directory' processed_dir st3 of
                       Normal st4 \<Rightarrow> Running st4
                     | Raised e st4 \<Rightarrow>
                         if e = KeyboardInterrupt then Returned st4 else Uncaught e st4))))"

subsection \<open>What a run shows from outside\<close>

definition new_events :: "'w state \<Rightarrow> 'w state \<Rightarrow> event list" where
  \<comment> \<open>the calls made between an earlier and a later state\<close>
  "new_events st st' = drop (length (trace st)) (trace st')"

fun attempt_on :: "path \<Rightarrow> event \<Rightarrow> bool" where
  \<comment> \<open>the calls of the loop body that handle the file at \<open>p\<close>\<close>
  "attempt_on p (Getsize k q) = (q = p)"
| "attempt_on p (OpenRead q) = (q = p)"
| "attempt_on p (Post q url body) = (q = p)"
| "attempt_on p (Utcnow q) = (q = p)"
| "attempt_on p (Rename q dest) = (q = p)"
| "attempt_on p ev = False"

fun is_delivery :: "event \<Rightarrow> bool" where
  \<comment> \<open>reading, posting and archiving\<close>
  "is_delivery (OpenRead q) = True"
| "is_delivery (Post q url body) = True"
| "is_delivery (Utcnow q) = True"
| "is_delivery (Rename q dest) = True"
| "is_delivery ev = False"

fun first_probes :: "event list \<Rightarrow> path list" where
  \<comment> \<open>the files that reached the size probe, in the order of the calls\<close>
  "first_probes [] = []"
| "first_probes (Getsize First p # evs) = p # first_probes evs"
| "first_probes (ev # evs) = first_probes evs"

definition is_candidate ::
  "'w ops \<Rightarrow> path \<Rightarrow> path \<Rightarrow> 'w state \<Rightarrow> 'w state \<Rightarrow> bool" where
  \<comment> \<open>the file at \<open>full\<close> passes the checks of lines 52-69 from state \<open>st\<close>,
      which the two size probes leave as \<open>st1\<close>\<close>
  "is_candidate ops full processed_dir st st1 =
     (in_processed ops full processed_dir = Inr False \<and> full \<notin> seen st \<and>
      probe_stable ops full st = (Inr True, st1))"

subsection \<open>A simulated environment\<close>

text \<open>
  An in-memory file system with the behaviour of the library calls on POSIX, a scripted
  clock, a scripted webhook and a scripted external writer. It makes the model
  executable; the general theorems do not depend on it.
\<close>

datatype node =
    RegularFile string
  | UnreadableFile string
  | Directory
  | LockedDirectory
  | DanglingLink

datatype writer = Idle | Append path string

record sim =
  fs :: "(path \<times> node) list"
  clock :: "datetime list"
  webhook :: "(exn + response) list"
  writers :: "writer list"

definition remove_entry :: "path \<Rightarrow> (path \<times> node) list \<Rightarrow> (path \<times> node) list" where
  "remove_entry p entries = filter (\<lambda>(q, n). q \<noteq> p) entries"

definition dirname :: "path \<Rightarrow> path" where
  "dirname p = take (nat (rfind p CHR ''/'')) p"

definition is_dir :: "sim \<Rightarrow> path \<Rightarrow> bool" where
  "is_dir w p = (map_of (fs w) p = Some Directory \<or> map_of (fs w) p = Some LockedDirectory)"

definition sim_abspath :: "path \<Rightarrow> sim \<Rightarrow> (exn + path) \<times> sim" where
  \<comment> \<open>the working directory is \<open>/srv\<close>\<close>
  "sim_abspath p w = (Inr (os_path_join ''/srv'' p), w)"

definition sim_exists :: "path \<Rightarrow> sim \<Rightarrow> (exn + bool) \<times> sim" where
  "sim_exists p w =
     (Inr (case map_of (fs w) p of None \<Rightarrow> False | Some DanglingLink \<Rightarrow> False | Some n \<Rightarrow> True), w)"

definition sim_makedirs :: "path \<Rightarrow> sim \<Rightarrow> (exn + unit) \<times> sim" where
  "sim_makedirs p w =
     (case map_of (fs w) p of
        None \<Rightarrow> (Inr (), w\<lparr>fs := fs w @ [(p, Directory)]\<rparr>)
      | Some Directory \<Rightarrow> (Inr (), w)
      | Some LockedDirectory \<Rightarrow> (Inr (), w)
      | Some n \<Rightarrow> (Inl (OtherException ''FileExistsError''), w))"

definition children :: "path \<Rightarrow> (path \<times> node) list \<Rightarrow> string list" where
  \<comment> \<open>the names of the entries directly inside \<open>d\<close>\<close>
  "children d entries =
     (let pre = d @ ''/'' in
      map (\<lambda>(q, n). drop (length pre) q)
        (filter (\<lambda>(q, n). take (length pre) q = pre \<and> length pre < length q \<and>
                   CHR ''/'' \<notin> set (drop (length pre) q)) entries))"

definition sim_listdir :: "path \<Rightarrow> sim \<Rightarrow> (exn + string list) \<times> sim" where
  "sim_listdir d w =
     (case map_of (fs w) d of
        None \<Rightarrow> (Inl FileNotFoundError, w)
      | Some DanglingLink \<Rightarrow> (Inl FileNotFoundError, w)
      | Some Directory \<Rightarrow> (Inr (children d (fs w)), w)
      | Some LockedDirectory \<Rightarrow> (Inl (OtherException ''PermissionError''), w)
      | Some n \<Rightarrow> (Inl (OtherException ''NotADirectoryError''), w))"

fun split_sep :: "string \<Rightarrow> string \<Rightarrow> string list" where
  \<comment> \<open>\<open>s.split('/')\<close>, with the component read so far as accumulator\<close>
  "split_sep acc [] = [acc]"
| "split_sep acc (c # cs) =
     (if c = CHR ''/'' then acc # split_sep [] cs else split_sep (acc @ [c]) cs)"

fun common_prefix :: "'a list \<Rightarrow> 'a list \<Rightarrow> 'a list" where
  "common_prefix (x # xs) (y # ys) = (if x = y then x # common_prefix xs ys else [])"
| "common_prefix xs ys = []"

fun join_sep :: "string list \<Rightarrow> string" where
  "join_sep [] = []"
| "join_sep [c] = c"
| "join_sep (c # cs) = c @ ''/'' @ join_sep cs"

definition components :: "path \<Rightarrow> string list" where
  "components p = filter (\<lambda>c. c \<noteq> [] \<and> c \<noteq> ''.'') (split_sep [] p)"

definition posix_commonpath :: "path list \<Rightarrow> exn + path" where
  \<comment> \<open>\<open>posixpath.commonpath\<close>\<close>
  "posix_commonpath paths =
     (case paths of
        [] \<Rightarrow> Inl (OtherException ''ValueError'')
      | p # ps \<Rightarrow>
          if filter (\<lambda>q. (take 1 q = ''/'') \<noteq> (take 1 p = ''/'')) ps \<noteq> []
          then Inl (OtherException ''ValueError'')
          else Inr ((if take 1 p = ''/'' then ''/'' else []) @
                    join_sep (foldl common_prefix (components p) (map components ps))))"

definition sim_getsize :: "path \<Rightarrow> sim \<Rightarrow> (exn + nat) \<times> sim" where
  "sim_getsize p w =
     (case map_of (fs w) p of
        None \<Rightarrow> (Inl FileNotFoundError, w)
      | Some DanglingLink \<Rightarrow> (Inl FileNotFoundError, w)
      | Some (RegularFile bs) \<Rightarrow> (Inr (length bs), w)
      | Some (UnreadableFile bs) \<Rightarrow> (Inr (length bs), w)
      | Some n \<Rightarrow> (Inr 4096, w))"

definition append_bytes :: "path \<Rightarrow> string \<Rightarrow> (path \<times> node) list \<Rightarrow> (path \<times> node) list" where
  "append_bytes p bs entries =
     (case map_of entries p of
        Some (RegularFile old) \<Rightarrow>
          map (\<lambda>(q, n). if q = p then (q, RegularFile (old @ bs)) else (q, n)) entries
      | Some n \<Rightarrow> entries
      | None \<Rightarrow> entries @ [(p, RegularFile bs)])"

definition sim_sleep :: "duration \<Rightarrow> sim \<Rightarrow> (exn + unit) \<times> sim" where
  \<comment> \<open>while the watcher sleeps, the next external writer runs\<close>
  "sim_sleep d w =
     (case writers w of
        [] \<Rightarrow> (Inr (), w)
      | Idle # rest \<Rightarrow> (Inr (), w\<lparr>writers := rest\<rparr>)
      | Append p bs # rest \<Rightarrow> (Inr (), w\<lparr>fs := append_bytes p bs (fs w), writers := rest\<rparr>))"

definition sim_read_bytes :: "path \<Rightarrow> sim \<Rightarrow> (exn + string) \<times> sim" where
  "sim_read_bytes p w =
     (case map_of (fs w) p of
        None \<Rightarrow> (Inl FileNotFoundError, w)
      | Some DanglingLink \<Rightarrow> (Inl FileNotFoundError, w)
      | Some (RegularFile bs) \<Rightarrow> (Inr bs, w)
      | Some (UnreadableFile bs) \<Rightarrow> (Inl (OtherException ''PermissionError''), w)
      | Some n \<Rightarrow> (Inl (OtherException ''IsADirectoryError''), w))"

definition sim_post :: "string \<Rightarrow> payload \<Rightarrow> sim \<Rightarrow> (exn + response) \<times> sim" where
  "sim_post url body w =
     (case webhook w of
        [] \<Rightarrow> (Inl (OtherException ''ConnectionError''), w)
      | r # rest \<Rightarrow> (r, w\<lparr>webhook := rest\<rparr>))"

definition epoch :: datetime where
  "epoch = \<lparr>year = 1970, month = 1, day = 1, hour = 0, minute = 0, second = 0, microsecond = 0\<rparr>"

definition sim_utcnow :: "sim \<Rightarrow> (exn + datetime) \<times> sim" where
  "sim_utcnow w =
     (case clock w of
        [] \<Rightarrow> (Inr epoch, w)
      | t # rest \<Rightarrow> (Inr t, w\<lparr>clock := rest\<rparr>))"

definition sim_rename :: "path \<Rightarrow> path \<Rightarrow> sim \<Rightarrow> (exn + unit) \<times> sim" where
  \<comment> \<open>\<open>os.rename\<close> on POSIX: a file at the destination is replaced silently\<close>
  "sim_rename src dst w =
     (case map_of (fs w) src of
        None \<Rightarrow> (Inl FileNotFoundError, w)
      | Some n \<Rightarrow>
          if \<not> is_dir w (dirname dst) then (Inl FileNotFoundError, w)
          else if is_dir w dst \<and> \<not> is_dir w src then (Inl (OtherException ''IsADirectoryError''), w)
          else (Inr (), w\<lparr>fs := remove_entry src (remove_entry dst (fs w)) @ [(dst, n)]\<rparr>))"

definition sim_ops :: "sim ops" where
  "sim_ops =
     \<lparr>os_path_abspath = sim_abspath,
      os_path_exists = sim_exists,
      os_makedirs = sim_makedirs,
      os_listdir = sim_listdir,
      os_path_commonpath = posix_commonpath,
      os_path_getsize = sim_getsize,
      time_sleep = sim_sleep,
      read_bytes = sim_read_bytes,
      requests_post = sim_post,
      datetime_utcnow = sim_utcnow,
      os_rename = sim_rename\<rparr>"

definition start :: "sim \<Rightarrow> sim state" where
  \<comment> \<open>the state at line 37: nothing seen yet\<close>
  "start w = \<lparr>seen = {}, world = w, trace = []\<rparr>"

subsection \<open>The detector as the specification describes it\<close>

definition has_txt_extension :: "string \<Rightarrow> bool" where
  \<comment> \<open>the name ends in \<open>.txt\<close>, the extension compared without regard to case\<close>
  "has_txt_extension fn = (lower (drop (length fn - 4) fn) = ''.txt'')"

definition inside_archive :: "'w ops \<Rightarrow> path \<Rightarrow> path \<Rightarrow> bool" where
  \<comment> \<open>the containment check succeeds and finds the path inside the archive
      subdirectory; a check that fails finds nothing\<close>
  "inside_archive ops full processed_dir =
     (os_path_commonpath ops [full, processed_dir] = Inr processed_dir)"

definition spec_candidates ::
  "'w ops \<Rightarrow> path \<Rightarrow> path \<Rightarrow> path set \<Rightarrow> string list \<Rightarrow> path list" where
  \<comment> \<open>the entries of the watch root with a \<open>.txt\<close> name, in lexicographic order of
      their names, without those inside the archive and without those already seen\<close>
  "spec_candidates ops directory processed_dir seen_set names =
     filter (\<lambda>p. \<not> inside_archive ops p processed_dir \<and> p \<notin> seen_set)
       (map (os_path_join directory) (sort (filter has_txt_extension names)))"

subsection \<open>Concrete runs\<close>

definition hook :: string where
  "hook = ''http://localhost:8080/webhook/transcript''"

definition root_with :: "(path \<times> node) list \<Rightarrow> sim" where
  \<comment> \<open>the watch root \<open>/srv/t\<close> with its archive and the given entries\<close>
  "root_with entries =
     \<lparr>fs = [(''/srv/t'', Directory), (''/srv/t/processed'', Directory)] @ entries,
      clock = [], webhook = [], writers = []\<rparr>"

definition accepted :: "exn + response" where
  "accepted = Inr \<lparr>status_code = 200, resp_text = ''ok''\<rparr>"

definition rejected :: "exn + response" where
  "rejected = Inr \<lparr>status_code = 500, resp_text = ''internal error''\<rparr>"

definition half_past_nine :: "int \<Rightarrow> datetime" where
  "half_past_nine us =
     \<lparr>year = 2024, month = 1, day = 15, hour = 9, minute = 30, second = 0, microsecond = us\<rparr>"

definition clobber_world :: sim where
  \<comment> \<open>two files with the same base name, both accepted within one second\<close>
  "clobber_world =
     (root_with [(''/srv/t/standup.TXT'', RegularFile ''first''),
                 (''/srv/t/standup.txt'', RegularFile ''second'')])
       \<lparr>clock := [half_past_nine 100000, half_past_nine 600000],
        webhook := [accepted, accepted]\<rparr>"

definition delivered_state :: "sim state" where
  \<comment> \<open>\<open>a.txt\<close> is in the seen set and still lies in the watch root\<close>
  "delivered_state =
     (start ((root_with [(''/srv/t/a.txt'', RegularFile ''hello'')])
               \<lparr>webhook := [accepted, accepted]\<rparr>))
       \<lparr>seen := {''/srv/t/a.txt''}\<rparr>"

definition rejecting_world :: sim where
  "rejecting_world =
     (root_with [(''/srv/t/a.txt'', RegularFile ''hello'')])\<lparr>webhook := [rejected]\<rparr>"

definition locked_world :: sim where
  \<comment> \<open>the watch root exists but may not be listed\<close>
  "locked_world =
     \<lparr>fs = [(''/srv/t'', LockedDirectory), (''/srv/t/processed'', Directory)],
      clock = [], webhook = [], writers = []\<rparr>"

definition missing_world :: sim where
  \<comment> \<open>the watch root has been deleted\<close>
  "missing_world = \<lparr>fs = [(''/srv'', Directory)], clock = [], webhook = [], writers = []\<rparr>"

definition no_archive_world :: sim where
  \<comment> \<open>the archive subdirectory has been deleted\<close>
  "no_archive_world =
     \<lparr>fs = [(''/srv/t'', Directory), (''/srv/t/a.txt'', RegularFile ''hello'')],
      clock = [half_past_nine 0], webhook = [accepted], writers = []\<rparr>"

definition unreadable_world :: sim where
  "unreadable_world = root_with [(''/srv/t/a.txt'', UnreadableFile ''secret'')]"

definition growing_world :: sim where
  \<comment> \<open>a producer appends to the file while the watcher waits between its probes\<close>
  "growing_world =
     (root_with [(''/srv/t/partial.txt'', RegularFile ''abc'')])
       \<lparr>writers := [Append ''/srv/t/partial.txt'' ''def'']\<rparr>"

definition mixed_state :: "sim state" where
  \<comment> \<open>a watch root whose archive subdirectory is called \<open>old.txt\<close>; \<open>c.txt\<close> is in
      the seen set\<close>
  "mixed_state =
     (start (root_with [(''/srv/t/b.txt'', RegularFile ''b''),
                        (''/srv/t/notes.md'', RegularFile ''n''),
                        (''/srv/t/old.txt'', Directory),
                        (''/srv/t/A.TXT'', RegularFile ''a''),
                        (''/srv/t/c.txt'', RegularFile ''c'')]))
       \<lparr>seen := {''/srv/t/c.txt''}\<rparr>"

definition link_world :: sim where
  \<comment> \<open>\<open>notes.txt\<close> is a symbolic link whose target does not exist\<close>
  "link_world = root_with [(''/srv/t/notes.txt'', DanglingLink)]"

definition subdir_world :: sim where
  \<comment> \<open>\<open>notes.txt\<close> is a subdirectory\<close>
  "subdir_world = root_with [(''/srv/t/notes.txt'', Directory)]"

definition latin1_world :: sim where
  \<comment> \<open>the bytes \<open>C3 28\<close> are not UTF-8\<close>
  "latin1_world = root_with [(''/srv/t/a.txt'', RegularFile [CHR 0xC3, CHR 0x28])]"

section \<open>What every iteration preserves\<close>

lemma call_frame:
  assumes "call f ev st = (r, st1)"
  shows "seen st1 = seen st" and "trace st1 = trace st @ [ev]" and "f (world st) = (r, world st1)"
  using assms by (auto simp: call_def split: prod.splits)

lemma probe_stable_frame:
  assumes "probe_stable ops full st = (r, st1)"
  shows "seen st1 = seen st"
    and "\<exists>evs. trace st1 = trace st @ Getsize First full # evs \<and>
           set evs \<subseteq> {Sleep (Millis 200), Getsize Second full}"
  using assms
  by (auto simp: probe_stable_def call_def split: prod.splits sum.splits)

lemma read_text_frame:
  assumes "read_text ops full st = (r, st1)"
  shows "seen st1 = seen st" and "trace st1 = trace st @ [OpenRead full]"
  using assms
  by (auto simp: read_text_def call_def split: prod.splits sum.splits if_splits)

lemma archive_frame:
  assumes "archive ops pd full mid st = (r, st1)"
  shows "seen st1 = seen st"
    and "\<exists>evs. trace st1 = trace st @ Utcnow full # evs \<and>
           (evs = [] \<or> (\<exists>dest. evs = [Rename full dest]))"
  using assms
  by (auto simp: archive_def call_def Let_def split: prod.splits sum.splits if_splits)

lemma process_file_excluded:
  "in_processed ops (os_path_join d fn) pd = Inr True \<Longrightarrow>
   process_file ops url stage d pd fn st = Normal st"
  by (simp add: process_file_def)

lemma process_file_check_raised:
  "in_processed ops (os_path_join d fn) pd = Inl e \<Longrightarrow>
   process_file ops url stage d pd fn st = Raised e st"
  by (simp add: process_file_def)

lemma process_file_seen:
  "in_processed ops (os_path_join d fn) pd = Inr False \<Longrightarrow> os_path_join d fn \<in> seen st \<Longrightarrow>
   process_file ops url stage d pd fn st = Normal st"
  by (simp add: process_file_def)

lemma process_file_probed:
  "in_processed ops (os_path_join d fn) pd = Inr False \<Longrightarrow> os_path_join d fn \<notin> seen st \<Longrightarrow>
   probe_stable ops (os_path_join d fn) st = (r, st1) \<Longrightarrow>
   process_file ops url stage d pd fn st =
     (case r of
        Inl e \<Rightarrow> if is_Exception e then Normal st1 else Raised e st1
      | Inr False \<Rightarrow> Normal st1
      | Inr True \<Rightarrow> deliver ops url stage pd fn (os_path_join d fn) st1)"
  by (simp add: process_file_def)


lemma deliver_read_failed:
  "read_text ops full st = (Inl e, st1) \<Longrightarrow>
   deliver ops url stage pd fn full st =
     (if is_Exception e then Normal (mark_seen full st1) else Raised e st1)"
  by (simp add: deliver_def)

lemma deliver_posted:
  "read_text ops full st = (Inr transcript, st1) \<Longrightarrow>
   call (requests_post ops url (make_payload (fst (os_path_splitext fn)) transcript stage))
     (Post full url (make_payload (fst (os_path_splitext fn)) transcript stage)) st1 = (r, st2) \<Longrightarrow>
   deliver ops url stage pd fn full st =
     (case r of
        Inl e \<Rightarrow> if is_Exception e then Normal st2 else Raised e st2
      | Inr resp \<Rightarrow>
          if 200 \<le> status_code resp \<and> status_code resp < 300 then
            (case archive ops pd full (fst (os_path_splitext fn)) st2 of
               (Inl e, st3) \<Rightarrow> if is_Exception e then Normal st3 else Raised e st3
             | (Inr u, st3) \<Rightarrow> Normal (mark_seen full st3))
          else Normal st2)"
  by (simp add: deliver_def Let_def)

lemma mark_seen_simps [simp]:
  "seen (mark_seen p st) = insert p (seen st)"
  "trace (mark_seen p st) = trace st"
  "world (mark_seen p st) = world st"
  by (simp_all add: mark_seen_def)

lemma deliver_frame:
  "\<exists>evs. trace (state_of (deliver ops url stage pd fn full st)) = trace st @ evs \<and>
         first_probes evs = [] \<and> (\<forall>ev \<in> set evs. attempt_on full ev) \<and>
         seen st \<subseteq> seen (state_of (deliver ops url stage pd fn full st)) \<and>
         seen (state_of (deliver ops url stage pd fn full st)) \<subseteq> insert full (seen st)"
proof -
  obtain r1 st1 where rd: "read_text ops full st = (r1, st1)"
    by (cases "read_text ops full st")
  note f1 = read_text_frame[OF rd]
  show ?thesis
  proof (cases r1)
    case (Inl e)
    with rd f1 show ?thesis
      by (auto simp: deliver_read_failed)
  next
    case (Inr transcript)
    let ?body = "make_payload (fst (os_path_splitext fn)) transcript stage"
    obtain r2 st2 where po: "call (requests_post ops url ?body) (Post full url ?body) st1 = (r2, st2)"
      by (cases "call (requests_post ops url ?body) (Post full url ?body) st1")
    note f2 = call_frame(1,2)[OF po]
    note eq = deliver_posted[OF rd[unfolded Inr] po]
    show ?thesis
    proof (cases r2)
      case (Inl e)
      with eq f1 f2 show ?thesis by auto
    next
      case (Inr resp)
      show ?thesis
      proof (cases "200 \<le> status_code resp \<and> status_code resp < 300")
        case False
        with eq Inr f1 f2 show ?thesis by auto
      next
        case True
        obtain r3 st3 where ar: "archive ops pd full (fst (os_path_splitext fn)) st2 = (r3, st3)"
          by (cases "archive ops pd full (fst (os_path_splitext fn)) st2")
        from archive_frame[OF ar] obtain evs where
          s3: "seen st3 = seen st2" and t3: "trace st3 = trace st2 @ Utcnow full # evs"
          and ev: "evs = [] \<or> (\<exists>dest. evs = [Rename full dest])" by blast
        have st: "state_of (deliver ops url stage pd fn full st) = st3 \<or>
                  state_of (deliver ops url stage pd fn full st) = mark_seen full st3"
          using eq Inr True ar by (cases r3) auto
        have tr: "trace st3 = trace st @ OpenRead full # Post full url ?body # Utcnow full # evs"
          using t3 f1 f2 by simp
        have fp: "first_probes (OpenRead full # Post full url ?body # Utcnow full # evs) = []"
          using ev by auto
        have at: "\<forall>ev \<in> set (OpenRead full # Post full url ?body # Utcnow full # evs). attempt_on full ev"
          using ev by auto
        have sn: "seen st3 = seen st" using s3 f1 f2 by simp
        from st show ?thesis
        proof
          assume "state_of (deliver ops url stage pd fn full st) = st3"
          with tr fp at sn show ?thesis by (metis order_refl subset_insertI)
        next
          assume "state_of (deliver ops url stage pd fn full st) = mark_seen full st3"
          with tr fp at sn show ?thesis
            by (metis mark_seen_simps(1,2) order_refl subset_insertI)
        qed
      qed
    qed
  qed
qed


lemma first_probes_append [simp]:
  "first_probes (xs @ ys) = first_probes xs @ first_probes ys"
  by (induction xs rule: first_probes.induct) auto

lemma first_probes_none:
  "set evs \<subseteq> {Sleep (Millis 200), Getsize Second full} \<Longrightarrow> first_probes evs = []"
  by (induction evs rule: first_probes.induct) auto

lemma process_file_frame:
  "\<exists>evs. trace (state_of (process_file ops url stage d pd fn st)) = trace st @ evs \<and>
         (\<forall>ev \<in> set evs. attempt_on (os_path_join d fn) ev \<or> ev = Sleep (Millis 200)) \<and>
         first_probes evs =
           (if in_processed ops (os_path_join d fn) pd = Inr False \<and> os_path_join d fn \<notin> seen st
            then [os_path_join d fn] else []) \<and>
         seen st \<subseteq> seen (state_of (process_file ops url stage d pd fn st)) \<and>
         seen (state_of (process_file ops url stage d pd fn st)) \<subseteq> insert (os_path_join d fn) (seen st) \<and>
         (os_path_join d fn \<in> seen st \<longrightarrow> evs = [])"
proof -
  let ?full = "os_path_join d fn"
  let ?out = "process_file ops url stage d pd fn st"
  show ?thesis
  proof (cases "in_processed ops ?full pd = Inr False \<and> ?full \<notin> seen st")
    case False
    have "state_of ?out = st"
    proof (cases "in_processed ops ?full pd")
      case (Inl e) then show ?thesis by (simp add: process_file_check_raised)
    next
      case (Inr b) with False show ?thesis
        by (cases b) (simp_all add: process_file_excluded process_file_seen)
    qed
    with False show ?thesis by auto
  next
    case True
    obtain r st1 where p: "probe_stable ops ?full st = (r, st1)"
      by (cases "probe_stable ops ?full st")
    from probe_stable_frame[OF p] obtain evs1 where
      s1: "seen st1 = seen st"
      and e1: "trace st1 = trace st @ Getsize First ?full # evs1"
      and m1: "set evs1 \<subseteq> {Sleep (Millis 200), Getsize Second ?full}" by blast
    note fp1 = first_probes_none[OF m1]
    note eq = process_file_probed[OF conjunct1[OF True] conjunct2[OF True] p, of url stage]
    show ?thesis
    proof (cases "r = Inr True")
      case False
      then have "state_of ?out = st1"
        using eq by (auto split: sum.splits bool.splits)
      with e1 s1 m1 fp1 True show ?thesis by auto
    next
      case rt: True
      then have out: "?out = deliver ops url stage pd fn ?full st1"
        using eq by simp
      from deliver_frame[of ops url stage pd fn ?full st1] obtain evs2 where
        e2: "trace (state_of ?out) = trace st1 @ evs2" and fp2: "first_probes evs2 = []"
        and a2: "\<forall>ev \<in> set evs2. attempt_on ?full ev"
        and s2: "seen st1 \<subseteq> seen (state_of ?out)" "seen (state_of ?out) \<subseteq> insert ?full (seen st1)"
        unfolding out by blast
      have "trace (state_of ?out) = trace st @ (Getsize First ?full # evs1 @ evs2)"
        using e1 e2 by simp
      moreover have "\<forall>ev \<in> set (Getsize First ?full # evs1 @ evs2).
                       attempt_on ?full ev \<or> ev = Sleep (Millis 200)"
        using m1 a2 by auto
      moreover have "first_probes (Getsize First ?full # evs1 @ evs2) = [?full]"
        using fp1 fp2 by simp
      ultimately show ?thesis using True s1 s2 by (metis)
    qed
  qed
qed

lemma attempt_on_unique: "attempt_on p ev \<Longrightarrow> attempt_on q ev \<Longrightarrow> p = q"
  by (cases ev) auto

lemma new_events_append [simp]: "trace st1 = trace st @ evs \<Longrightarrow> new_events st st1 = evs"
  by (simp add: new_events_def)

lemma for_files_frame:
  "\<exists>evs. trace (state_of (for_files ops url stage d pd fns st)) = trace st @ evs \<and>
         seen st \<subseteq> seen (state_of (for_files ops url stage d pd fns st)) \<and>
         (\<forall>p \<in> seen st. \<forall>ev \<in> set evs. \<not> attempt_on p ev)"
proof (induction fns arbitrary: st)
  case Nil
  show ?case by simp
next
  case (Cons fn fns)
  let ?full = "os_path_join d fn"
  let ?o1 = "process_file ops url stage d pd fn st"
  from process_file_frame[of ops url stage d pd fn st] obtain evs1 where
    t1: "trace (state_of ?o1) = trace st @ evs1"
    and a1: "\<forall>ev \<in> set evs1. attempt_on ?full ev \<or> ev = Sleep (Millis 200)"
    and s1: "seen st \<subseteq> seen (state_of ?o1)"
    and k1: "?full \<in> seen st \<longrightarrow> evs1 = []" by blast
  have no1: "\<forall>p \<in> seen st. \<forall>ev \<in> set evs1. \<not> attempt_on p ev"
  proof (intro ballI notI)
    fix p ev assume p: "p \<in> seen st" and ev: "ev \<in> set evs1" and at: "attempt_on p ev"
    from a1 ev have "attempt_on ?full ev \<or> ev = Sleep (Millis 200)" by blast
    then have "attempt_on ?full ev" using at by auto
    then have "p = ?full" using at attempt_on_unique by blast
    with p k1 ev show False by auto
  qed
  show ?case
  proof (cases ?o1)
    case (Raised e st1)
    with t1 s1 no1 show ?thesis by auto
  next
    case (Normal st1)
    from Cons.IH[of st1] obtain evs2 where
      t2: "trace (state_of (for_files ops url stage d pd fns st1)) = trace st1 @ evs2"
      and s2: "seen st1 \<subseteq> seen (state_of (for_files ops url stage d pd fns st1))"
      and n2: "\<forall>p \<in> seen st1. \<forall>ev \<in> set evs2. \<not> attempt_on p ev" by blast
    have "trace (state_of (for_files ops url stage d pd (fn # fns) st)) = trace st @ (evs1 @ evs2)"
      using Normal t1 t2 by simp
    moreover have "seen st \<subseteq> seen (state_of (for_files ops url stage d pd (fn # fns) st))"
      using Normal s1 s2 by auto
    moreover have "\<forall>p \<in> seen st. \<forall>ev \<in> set (evs1 @ evs2). \<not> attempt_on p ev"
      using no1 n2 s1 Normal by auto
    ultimately show ?thesis by blast
  qed
qed

lemma for_files_probes:
  assumes "distinct (map (os_path_join d) fns)"
  shows "\<exists>evs. trace (state_of (for_files ops url stage d pd fns st)) = trace st @ evs \<and>
           prefix (first_probes evs)
             (filter (\<lambda>p. in_processed ops p pd \<noteq> Inr True \<and> p \<notin> seen st) (map (os_path_join d) fns)) \<and>
           (is_Normal (for_files ops url stage d pd fns st) \<longrightarrow>
              first_probes evs =
                filter (\<lambda>p. in_processed ops p pd \<noteq> Inr True \<and> p \<notin> seen st) (map (os_path_join d) fns))"
  using assms
proof (induction fns arbitrary: st)
  case Nil
  show ?case by simp
next
  case (Cons fn fns)
  let ?full = "os_path_join d fn"
  let ?o1 = "process_file ops url stage d pd fn st"
  let ?keep = "\<lambda>sn p. in_processed ops p pd \<noteq> Inr True \<and> p \<notin> sn"
  from Cons.prems have dist: "distinct (map (os_path_join d) fns)"
    and notin: "?full \<notin> set (map (os_path_join d) fns)" by auto
  from process_file_frame[of ops url stage d pd fn st] obtain evs1 where
    t1: "trace (state_of ?o1) = trace st @ evs1"
    and f1: "first_probes evs1 =
           (if in_processed ops ?full pd = Inr False \<and> ?full \<notin> seen st then [?full] else [])"
    and s1: "seen st \<subseteq> seen (state_of ?o1)" "seen (state_of ?o1) \<subseteq> insert ?full (seen st)"
    by blast
  show ?case
  proof (cases ?o1)
    case (Raised e st1)
    have "prefix (first_probes evs1) (filter (?keep (seen st)) (map (os_path_join d) (fn # fns)))"
      using f1 by auto
    with Raised t1 show ?thesis by auto
  next
    case (Normal st1)
    have notraise: "\<And>e. in_processed ops ?full pd \<noteq> Inl e"
      using Normal by (auto simp: process_file_check_raised)
    have f1': "first_probes evs1 = filter (?keep (seen st)) [?full]"
    proof (cases "in_processed ops ?full pd")
      case (Inl e) with notraise[of e] show ?thesis by blast
    next
      case (Inr b) with f1 show ?thesis by (cases b) auto
    qed
    have same: "filter (?keep (seen st1)) (map (os_path_join d) fns) =
                filter (?keep (seen st)) (map (os_path_join d) fns)"
    proof (rule filter_cong[OF refl])
      fix p assume "p \<in> set (map (os_path_join d) fns)"
      with notin have "p \<noteq> ?full" by blast
      with s1 Normal show "?keep (seen st1) p = ?keep (seen st) p" by auto
    qed
    from Cons.IH[OF dist, of st1] obtain evs2 where
      t2: "trace (state_of (for_files ops url stage d pd fns st1)) = trace st1 @ evs2"
      and p2: "prefix (first_probes evs2) (filter (?keep (seen st1)) (map (os_path_join d) fns))"
      and n2: "is_Normal (for_files ops url stage d pd fns st1) \<longrightarrow>
               first_probes evs2 = filter (?keep (seen st1)) (map (os_path_join d) fns)" by blast
    have "trace (state_of (for_files ops url stage d pd (fn # fns) st)) = trace st @ (evs1 @ evs2)"
      using Normal t1 t2 by simp
    moreover have "prefix (first_probes (evs1 @ evs2))
                     (filter (?keep (seen st)) (map (os_path_join d) (fn # fns)))"
    proof -
      have "prefix (first_probes evs2) (filter (?keep (seen st)) (map (os_path_join d) fns))"
        using p2 same by simp
      then have "prefix (first_probes evs1 @ first_probes evs2)
                   (first_probes evs1 @ filter (?keep (seen st)) (map (os_path_join d) fns))"
        by (simp only: same_prefix_prefix)
      moreover have "filter (?keep (seen st)) (map (os_path_join d) (fn # fns)) =
                     first_probes evs1 @ filter (?keep (seen st)) (map (os_path_join d) fns)"
        unfolding f1' by simp
      ultimately show ?thesis by simp
    qed
    moreover have "is_Normal (for_files ops url stage d pd (fn # fns) st) \<longrightarrow>
                   first_probes (evs1 @ evs2) =
                     filter (?keep (seen st)) (map (os_path_join d) (fn # fns))"
    proof
      assume "is_Normal (for_files ops url stage d pd (fn # fns) st)"
      then have "is_Normal (for_files ops url stage d pd fns st1)" using Normal by simp
      with n2 same have "first_probes evs2 = filter (?keep (seen st)) (map (os_path_join d) fns)"
        by simp
      moreover have "filter (?keep (seen st)) (map (os_path_join d) (fn # fns)) =
                     first_probes evs1 @ filter (?keep (seen st)) (map (os_path_join d) fns)"
        unfolding f1' by simp
      ultimately show "first_probes (evs1 @ evs2) =
                     filter (?keep (seen st)) (map (os_path_join d) (fn # fns))" by simp
    qed
    ultimately show ?thesis by blast
  qed
qed

lemma ensure_dir_frame:
  "\<exists>evs. trace (state_of (ensure_dir ops p st)) = trace st @ evs \<and>
         set evs \<subseteq> {Exists p, Makedirs p} \<and>
         seen (state_of (ensure_dir ops p st)) = seen st"
  by (auto simp: ensure_dir_def call_def split: prod.splits sum.splits bool.splits)

lemma list_files_frame:
  assumes "list_files ops d st = (r, st1)"
  shows "\<exists>evs. trace st1 = trace st @ evs \<and> set evs \<subseteq> {Listdir d, Exists d, Makedirs d} \<and>
           seen st1 = seen st"
proof -
  obtain r0 st0 where c: "call (os_listdir ops d) (Listdir d) st = (r0, st0)"
    by (cases "call (os_listdir ops d) (Listdir d) st")
  note f0 = call_frame(1,2)[OF c]
  show ?thesis
  proof (cases "r0 = Inl FileNotFoundError")
    case False
    then have "st1 = st0" using assms c
      by (auto simp: list_files_def split: sum.splits)
    with f0 show ?thesis by auto
  next
    case True
    from ensure_dir_frame[of ops d st0] obtain evs where
      e: "trace (state_of (ensure_dir ops d st0)) = trace st0 @ evs"
         "set evs \<subseteq> {Exists d, Makedirs d}"
         "seen (state_of (ensure_dir ops d st0)) = seen st0" by blast
    have "st1 = state_of (ensure_dir ops d st0)" using assms c True
      by (auto simp: list_files_def split: outcome.splits)
    with e f0 show ?thesis by auto
  qed
qed

lemma list_files_listed:
  "os_listdir ops d (world st) = (Inr names, w1) \<Longrightarrow>
   list_files ops d st =
     (Inr (filter is_txt names), st\<lparr>world := w1, trace := trace st @ [Listdir d]\<rparr>)"
  by (simp add: list_files_def call_def)

lemma list_files_raised:
  "os_listdir ops d (world st) = (Inl e, w1) \<Longrightarrow> e \<noteq> FileNotFoundError \<Longrightarrow>
   list_files ops d st = (Inl e, st\<lparr>world := w1, trace := trace st @ [Listdir d]\<rparr>)"
  by (simp add: list_files_def call_def)

lemma list_files_missing:
  "os_listdir ops d (world st) = (Inl FileNotFoundError, w1) \<Longrightarrow>
   list_files ops d st =
     (case ensure_dir ops d (st\<lparr>world := w1, trace := trace st @ [Listdir d]\<rparr>) of
        Normal st2 \<Rightarrow> (Inr [], st2)
      | Raised e' st2 \<Rightarrow> (Inl e', st2))"
  by (simp add: list_files_def call_def)

lemma cycle_unfold:
  "list_files ops d st = (Inr files, st1) \<Longrightarrow>
   for_files ops url stage d pd (sort files) st1 = Normal st2 \<Longrightarrow>
   cycle ops url stage pi d pd st =
     (case call (time_sleep ops (Seconds pi)) (Sleep (Seconds pi)) st2 of
        (Inl e, st3) \<Rightarrow> Raised e st3
      | (Inr u, st3) \<Rightarrow> Normal st3)"
  by (simp add: cycle_def)

lemma cycle_shape:
  "\<exists>evs0 evs1 evs2 r st1.
     list_files ops d st = (r, st1) \<and> trace st1 = trace st @ evs0 \<and> seen st1 = seen st \<and>
     set evs0 \<subseteq> {Listdir d, Exists d, Makedirs d} \<and>
     set evs2 \<subseteq> {Sleep (Seconds pi)} \<and>
     trace (state_of (cycle ops url stage pi d pd st)) = trace st @ evs0 @ evs1 @ evs2 \<and>
     (case r of
        Inl e \<Rightarrow> evs1 = [] \<and> evs2 = [] \<and> state_of (cycle ops url stage pi d pd st) = st1 \<and>
                 \<not> is_Normal (cycle ops url stage pi d pd st)
      | Inr files \<Rightarrow>
          trace (state_of (for_files ops url stage d pd (sort files) st1)) = trace st1 @ evs1 \<and>
          seen (state_of (cycle ops url stage pi d pd st)) =
            seen (state_of (for_files ops url stage d pd (sort files) st1)) \<and>
          (is_Normal (cycle ops url stage pi d pd st) \<longrightarrow>
             is_Normal (for_files ops url stage d pd (sort files) st1)))"
proof -
  obtain r st1 where lf: "list_files ops d st = (r, st1)" by (cases "list_files ops d st")
  from list_files_frame[OF lf] obtain evs0 where
    e0: "trace st1 = trace st @ evs0" "set evs0 \<subseteq> {Listdir d, Exists d, Makedirs d}"
        "seen st1 = seen st" by blast
  show ?thesis
  proof (cases r)
    case (Inl e)
    then have "cycle ops url stage pi d pd st = Raised e st1"
      using lf by (simp add: cycle_def)
    with lf e0 Inl show ?thesis
      by (intro exI[of _ evs0] exI[of _ "[]"] exI[of _ r] exI[of _ st1]) auto
  next
    case (Inr files)
    let ?f = "for_files ops url stage d pd (sort files) st1"
    from for_files_frame[of ops url stage d pd "sort files" st1] obtain evs1 where
      e1: "trace (state_of ?f) = trace st1 @ evs1" by blast
    show ?thesis
    proof (cases ?f)
      case (Raised e st2)
      then have "cycle ops url stage pi d pd st = Raised e st2"
        using lf Inr by (simp add: cycle_def)
      with lf e0 e1 Inr Raised show ?thesis
        by (intro exI[of _ evs0] exI[of _ evs1] exI[of _ "[]"] exI[of _ r] exI[of _ st1]) auto
    next
      case (Normal st2)
      obtain r3 st3 where sl: "call (time_sleep ops (Seconds pi)) (Sleep (Seconds pi)) st2 = (r3, st3)"
        by (cases "call (time_sleep ops (Seconds pi)) (Sleep (Seconds pi)) st2")
      note f3 = call_frame(1,2)[OF sl]
      have st: "state_of (cycle ops url stage pi d pd st) = st3"
        using cycle_unfold[OF lf[unfolded Inr] Normal, of pi] sl by (cases r3) auto
      with lf e0 e1 Inr Normal f3 show ?thesis
        by (intro exI[of _ evs0] exI[of _ evs1] exI[of _ "[Sleep (Seconds pi)]"] exI[of _ r] exI[of _ st1])
           auto
    qed
  qed
qed

lemma cycle_frame:
  "\<exists>evs. trace (state_of (cycle ops url stage pi d pd st)) = trace st @ evs \<and>
         seen st \<subseteq> seen (state_of (cycle ops url stage pi d pd st)) \<and>
         (\<forall>p \<in> seen st. \<forall>ev \<in> set evs. \<not> attempt_on p ev)"
proof -
  let ?c = "cycle ops url stage pi d pd st"
  from cycle_shape[of ops d st pi url stage pd] obtain evs0 evs1 evs2 r st1 where
    lf: "list_files ops d st = (r, st1)" and s1: "seen st1 = seen st"
    and m0: "set evs0 \<subseteq> {Listdir d, Exists d, Makedirs d}"
    and m2: "set evs2 \<subseteq> {Sleep (Seconds pi)}"
    and tr: "trace (state_of ?c) = trace st @ evs0 @ evs1 @ evs2"
    and cs: "case r of
        Inl e \<Rightarrow> evs1 = [] \<and> evs2 = [] \<and> state_of ?c = st1 \<and> \<not> is_Normal ?c
      | Inr files \<Rightarrow>
          trace (state_of (for_files ops url stage d pd (sort files) st1)) = trace st1 @ evs1 \<and>
          seen (state_of ?c) = seen (state_of (for_files ops url stage d pd (sort files) st1)) \<and>
          (is_Normal ?c \<longrightarrow> is_Normal (for_files ops url stage d pd (sort files) st1))"
    by blast
  have n0: "\<forall>p. \<forall>ev \<in> set evs0. \<not> attempt_on p ev" using m0 by auto
  have n2: "\<forall>p. \<forall>ev \<in> set evs2. \<not> attempt_on p ev" using m2 by auto
  have "seen st \<subseteq> seen (state_of ?c) \<and> (\<forall>p \<in> seen st. \<forall>ev \<in> set evs1. \<not> attempt_on p ev)"
  proof (cases r)
    case (Inl e)
    with cs s1 show ?thesis by auto
  next
    case (Inr files)
    let ?f = "for_files ops url stage d pd (sort files) st1"
    from for_files_frame[of ops url stage d pd "sort files" st1] obtain evs where
      f: "trace (state_of ?f) = trace st1 @ evs" "seen st1 \<subseteq> seen (state_of ?f)"
         "\<forall>p \<in> seen st1. \<forall>ev \<in> set evs. \<not> attempt_on p ev" by blast
    from cs Inr have "trace (state_of ?f) = trace st1 @ evs1"
      and sc: "seen (state_of ?c) = seen (state_of ?f)" by auto
    with f(1) have "evs1 = evs" by simp
    with f s1 sc show ?thesis by auto
  qed
  with tr n0 n2 show ?thesis by auto
qed

lemma while_true_frame:
  "\<exists>evs. trace (state_of (while_true n ops url stage pi d pd st)) = trace st @ evs \<and>
         seen st \<subseteq> seen (state_of (while_true n ops url stage pi d pd st)) \<and>
         (\<forall>p \<in> seen st. \<forall>ev \<in> set evs. \<not> attempt_on p ev)"
proof (induction n arbitrary: st)
  case 0
  show ?case by simp
next
  case (Suc n)
  let ?c = "cycle ops url stage pi d pd st"
  from cycle_frame[of ops url stage pi d pd st] obtain evs1 where
    c: "trace (state_of ?c) = trace st @ evs1" "seen st \<subseteq> seen (state_of ?c)"
       "\<forall>p \<in> seen st. \<forall>ev \<in> set evs1. \<not> attempt_on p ev" by blast
  show ?case
  proof (cases ?c)
    case (Raised e st1)
    with c show ?thesis by auto
  next
    case (Normal st1)
    from Suc.IH[of st1] obtain evs2 where
      w: "trace (state_of (while_true n ops url stage pi d pd st1)) = trace st1 @ evs2"
         "seen st1 \<subseteq> seen (state_of (while_true n ops url stage pi d pd st1))"
         "\<forall>p \<in> seen st1. \<forall>ev \<in> set evs2. \<not> attempt_on p ev" by blast
    have "trace (state_of (while_true (Suc n) ops url stage pi d pd st)) = trace st @ (evs1 @ evs2)"
      using Normal c w by simp
    moreover have "seen st \<subseteq> seen (state_of (while_true (Suc n) ops url stage pi d pd st))"
      using Normal c w by auto
    moreover have "\<forall>p \<in> seen st. \<forall>ev \<in> set (evs1 @ evs2). \<not> attempt_on p ev"
      using Normal c w by auto
    ultimately show ?thesis by blast
  qed
qed

lemma probe_stable_passed:
  assumes "probe_stable ops full st = (Inr True, st1)"
  shows "seen st1 = seen st"
    and "trace st1 = trace st @ [Getsize First full, Sleep (Millis 200), Getsize Second full]"
  using assms
  by (auto simp: probe_stable_def call_def split: prod.splits sum.splits)

lemma process_file_candidate:
  assumes "is_candidate ops (os_path_join d fn) pd st st1"
  shows "process_file ops url stage d pd fn st = deliver ops url stage pd fn (os_path_join d fn) st1"
  using assms process_file_probed[of ops d fn pd st "Inr True" st1 url stage]
  by (simp add: is_candidate_def)

lemma candidate_frame:
  assumes "is_candidate ops full pd st st1"
  shows "seen st1 = seen st" and "full \<notin> seen st"
    and "trace st1 = trace st @ [Getsize First full, Sleep (Millis 200), Getsize Second full]"
  using assms probe_stable_passed[of ops full st st1]
  by (simp_all add: is_candidate_def)

lemma skipped_later:
  assumes "p \<in> seen st"
  shows "\<forall>ev \<in> set (new_events st (state_of (while_true n ops url stage pi d pd st))).
           \<not> attempt_on p ev"
proof -
  from while_true_frame[of n ops url stage pi d pd st] obtain evs where
    w: "trace (state_of (while_true n ops url stage pi d pd st)) = trace st @ evs"
       "\<forall>p \<in> seen st. \<forall>ev \<in> set evs. \<not> attempt_on p ev" by blast
  from new_events_append[OF w(1)] w(2) assms show ?thesis by auto
qed

lemma archive_renamed:
  assumes "datetime_utcnow ops (world st) = (Inr now, w1)"
    and "os_rename ops full (os_path_join pd (archive_name mid now)) w1 = (r, w2)"
  shows "archive ops pd full mid st =
     ((case r of Inl e \<Rightarrow> if is_Exception e then Inr () else Inl e | Inr u \<Rightarrow> Inr ()),
      st\<lparr>world := w2,
         trace := trace st @ [Utcnow full, Rename full (os_path_join pd (archive_name mid now))]\<rparr>)"
  using assms by (auto simp: archive_def call_def Let_def split: sum.splits)

lemma read_failure_marks_seen:
  assumes cand: "is_candidate ops (os_path_join d fn) pd st st1"
    and rd: "read_text ops (os_path_join d fn) st1 = (Inl e, st2)"
    and exc: "is_Exception e"
  shows "process_file ops url stage d pd fn st = Normal (mark_seen (os_path_join d fn) st2)"
    and "seen st2 = seen st"
    and "trace st2 = trace st @ [Getsize First (os_path_join d fn), Sleep (Millis 200),
           Getsize Second (os_path_join d fn), OpenRead (os_path_join d fn)]"
  using candidate_frame[OF cand] read_text_frame[OF rd] exc
  unfolding process_file_candidate[OF cand] deliver_read_failed[OF rd]
  by simp_all

lemma probe_first_failed:
  "os_path_getsize ops full (world st) = (Inl e, w1) \<Longrightarrow>
   probe_stable ops full st = (Inl e, st\<lparr>world := w1, trace := trace st @ [Getsize First full]\<rparr>)"
  by (simp add: probe_stable_def call_def)

lemma probe_second:
  "os_path_getsize ops full (world st) = (Inr s1, w1) \<Longrightarrow>
   time_sleep ops (Millis 200) w1 = (Inr (), w2) \<Longrightarrow>
   os_path_getsize ops full w2 = (r2, w3) \<Longrightarrow>
   probe_stable ops full st =
     ((case r2 of Inl e \<Rightarrow> Inl e | Inr s2 \<Rightarrow> Inr (s1 = s2)),
      st\<lparr>world := w3,
         trace := trace st @ [Getsize First full, Sleep (Millis 200), Getsize Second full]\<rparr>)"
  by (simp add: probe_stable_def call_def split: sum.splits)

lemma process_file_reprobes:
  assumes "in_processed ops (os_path_join d fn) pd = Inr False" and "os_path_join d fn \<notin> seen st"
  shows "first_probes (new_events st (state_of (process_file ops url stage d pd fn st))) =
           [os_path_join d fn]"
proof -
  from process_file_frame[of ops url stage d pd fn st] obtain evs where
    "trace (state_of (process_file ops url stage d pd fn st)) = trace st @ evs"
    "first_probes evs =
       (if in_processed ops (os_path_join d fn) pd = Inr False \<and> os_path_join d fn \<notin> seen st
        then [os_path_join d fn] else [])" by blast
  with assms new_events_append show ?thesis by fastforce
qed

lemma while_true_first_raised:
  "cycle ops url stage pi d pd st = Raised e st1 \<Longrightarrow>
   while_true (Suc n) ops url stage pi d pd st = Raised e st1"
  by simp

lemma is_txt_has_txt_extension: "is_txt fn = has_txt_extension fn"
proof (cases "4 \<le> length fn")
  case True
  then show ?thesis
    by (simp add: is_txt_def has_txt_extension_def endswith_def lower_def drop_map
          eval_nat_numeral)
next
  case False
  then have a: "\<not> is_txt fn"
    by (simp add: is_txt_def endswith_def lower_def eval_nat_numeral)
  from False have "length (lower (drop (length fn - 4) fn)) < 4" by (simp add: lower_def)
  then have "lower (drop (length fn - 4) fn) \<noteq> ''.txt''" by auto
  then have "\<not> has_txt_extension fn" by (simp add: has_txt_extension_def)
  with a show ?thesis by simp
qed

lemma os_path_join_inj:
  assumes "CHR ''/'' \<notin> set a" and "CHR ''/'' \<notin> set b"
    and "os_path_join d a = os_path_join d b"
  shows "a = b"
proof -
  have "take 1 a \<noteq> ''/''" using assms(1) by (cases a) auto
  moreover have "take 1 b \<noteq> ''/''" using assms(2) by (cases b) auto
  ultimately show ?thesis using assms(3)
    by (auto simp: os_path_join_def split: if_splits)
qed

lemma in_processed_inside_archive:
  "(in_processed ops p pd = Inr True) = inside_archive ops p pd"
  by (auto simp: in_processed_def inside_archive_def split: sum.splits if_splits)

lemma strftime_second_resolution:
  "strftime (now\<lparr>microsecond := us\<rparr>) = strftime now"
  by (simp add: strftime_def)

lemma same_second_same_destination:
  assumes "year a = year b" "month a = month b" "day a = day b"
    "hour a = hour b" "minute a = minute b" "second a = second b"
  shows "os_path_join pd (archive_name mid a) = os_path_join pd (archive_name mid b)"
  using assms by (simp add: archive_name_def strftime_def)

section \<open>The claims\<close>

text \<open>
  C2: a path that is in the seen set stays there, and no later iteration of the polling
  loop probes, reads, posts or archives it, whatever the environment does.
\<close>

theorem seen_path_never_reattempted:
  assumes "p \<in> seen st"
  shows "p \<in> seen (state_of (while_true n ops url stage pi d pd st)) \<and>
         (\<forall>ev \<in> set (new_events st (state_of (while_true n ops url stage pi d pd st))).
            \<not> attempt_on p ev)"
proof -
  from while_true_frame[of n ops url stage pi d pd st] obtain evs where
    w: "trace (state_of (while_true n ops url stage pi d pd st)) = trace st @ evs"
       "seen st \<subseteq> seen (state_of (while_true n ops url stage pi d pd st))"
       "\<forall>p \<in> seen st. \<forall>ev \<in> set evs. \<not> attempt_on p ev" by blast
  from w(1) have "new_events st (state_of (while_true n ops url stage pi d pd st)) = evs"
    by (rule new_events_append)
  with w assms show ?thesis by auto
qed

theorem seen_path_never_reattempted_witness:
  "''/srv/t/a.txt'' \<in> seen delivered_state \<and>
   ''/srv/t/a.txt'' \<in>
     seen (state_of (while_true 2 sim_ops hook True 5 ''/srv/t'' ''/srv/t/processed'' delivered_state)) \<and>
   filter (attempt_on ''/srv/t/a.txt'')
     (new_events delivered_state
        (state_of (while_true 2 sim_ops hook True 5 ''/srv/t'' ''/srv/t/processed'' delivered_state))) = [] \<and>
   new_events delivered_state
     (state_of (while_true 2 sim_ops hook True 5 ''/srv/t'' ''/srv/t/processed'' delivered_state)) =
     [Listdir ''/srv/t'', Sleep (Seconds 5), Listdir ''/srv/t'', Sleep (Seconds 5)]"
proof -
  have h: "''/srv/t/a.txt'' \<in> seen delivered_state"
    by (simp add: delivered_state_def)
  have run: "new_events delivered_state
     (state_of (while_true 2 sim_ops hook True 5 ''/srv/t'' ''/srv/t/processed'' delivered_state)) =
     [Listdir ''/srv/t'', Sleep (Seconds 5), Listdir ''/srv/t'', Sleep (Seconds 5)]"
    by code_simp
  from seen_path_never_reattempted[OF h, of 2 sim_ops hook True 5 "''/srv/t''" "''/srv/t/processed''"]
  have "''/srv/t/a.txt'' \<in>
     seen (state_of (while_true 2 sim_ops hook True 5 ''/srv/t'' ''/srv/t/processed'' delivered_state))"
    and "filter (attempt_on ''/srv/t/a.txt'')
     (new_events delivered_state
        (state_of (while_true 2 sim_ops hook True 5 ''/srv/t'' ''/srv/t/processed'' delivered_state))) = []"
    by (simp_all only: filter_empty_conv) blast+
  with h run show ?thesis by blast
qed

text \<open>
  C3: when the POST of a candidate raises, or its response has a status outside
  [200, 300), the iteration ends after the POST: the seen set is unchanged, the path is
  not in it, and neither the clock is read nor a rename attempted, so the file stays as
  it is and an iteration of a later cycle probes it again. The loop goes on exactly when
  the exception is one that \<open>except Exception\<close> catches.
\<close>

theorem failed_post_leaves_candidate:
  assumes cand: "is_candidate ops (os_path_join d fn) pd st st1"
    and rd: "read_text ops (os_path_join d fn) st1 = (Inr transcript, st2)"
    and po: "requests_post ops url (make_payload (fst (os_path_splitext fn)) transcript stage)
               (world st2) = (r, w3)"
    and fail: "(\<exists>e. r = Inl e) \<or>
               (\<exists>resp. r = Inr resp \<and> \<not> (200 \<le> status_code resp \<and> status_code resp < 300))"
  shows "seen (state_of (process_file ops url stage d pd fn st)) = seen st \<and>
         os_path_join d fn \<notin> seen (state_of (process_file ops url stage d pd fn st)) \<and>
         world (state_of (process_file ops url stage d pd fn st)) = w3 \<and>
         new_events st (state_of (process_file ops url stage d pd fn st)) =
           [Getsize First (os_path_join d fn), Sleep (Millis 200),
            Getsize Second (os_path_join d fn), OpenRead (os_path_join d fn),
            Post (os_path_join d fn) url
              (make_payload (fst (os_path_splitext fn)) transcript stage)] \<and>
         is_Normal (process_file ops url stage d pd fn st) =
           (case r of Inl e \<Rightarrow> is_Exception e | Inr resp \<Rightarrow> True) \<and>
         (\<forall>st'. os_path_join d fn \<notin> seen st' \<longrightarrow>
            first_probes (new_events st' (state_of (process_file ops url stage d pd fn st'))) =
              [os_path_join d fn])"
proof -
  let ?full = "os_path_join d fn"
  let ?body = "make_payload (fst (os_path_splitext fn)) transcript stage"
  let ?st3 = "st2\<lparr>world := w3, trace := trace st2 @ [Post ?full url ?body]\<rparr>"
  have chk: "in_processed ops ?full pd = Inr False"
    using cand by (simp add: is_candidate_def)
  have again: "\<forall>st'. ?full \<notin> seen st' \<longrightarrow>
      first_probes (new_events st' (state_of (process_file ops url stage d pd fn st'))) = [?full]"
    using process_file_reprobes[OF chk] by blast
  have c: "call (requests_post ops url ?body) (Post ?full url ?body) st2 = (r, ?st3)"
    using po by (simp add: call_def)
  note cf = candidate_frame[OF cand]
  note rf = read_text_frame[OF rd]
  have out: "process_file ops url stage d pd fn st =
        (case r of
           Inl e \<Rightarrow> if is_Exception e then Normal ?st3 else Raised e ?st3
         | Inr resp \<Rightarrow> Normal ?st3)"
    using fail unfolding process_file_candidate[OF cand] deliver_posted[OF rd c]
    by (auto split: sum.splits)
  have st: "state_of (process_file ops url stage d pd fn st) = ?st3"
    unfolding out by (auto split: sum.splits)
  have tr: "trace ?st3 = trace st @ [Getsize First ?full, Sleep (Millis 200),
            Getsize Second ?full, OpenRead ?full, Post ?full url ?body]"
    using cf rf by simp
  have nm: "is_Normal (process_file ops url stage d pd fn st) =
           (case r of Inl e \<Rightarrow> is_Exception e | Inr resp \<Rightarrow> True)"
    unfolding out by (auto split: sum.splits)
  have main: "seen ?st3 = seen st \<and> ?full \<notin> seen ?st3 \<and> world ?st3 = w3 \<and>
      new_events st ?st3 = [Getsize First ?full, Sleep (Millis 200),
            Getsize Second ?full, OpenRead ?full, Post ?full url ?body]"
    using cf rf new_events_append[OF tr] by simp
  show ?thesis
    unfolding st using main nm again by blast
qed


theorem failed_post_leaves_candidate_witness:
  "fst (probe_stable sim_ops ''/srv/t/a.txt'' (start rejecting_world)) = Inr True \<and>
   fst (read_text sim_ops ''/srv/t/a.txt''
          (snd (probe_stable sim_ops ''/srv/t/a.txt'' (start rejecting_world)))) = Inr ''hello'' \<and>
   fst (requests_post sim_ops hook (make_payload ''a'' ''hello'' True) rejecting_world) = rejected \<and>
   seen (state_of (process_file sim_ops hook True ''/srv/t'' ''/srv/t/processed'' ''a.txt''
                     (start rejecting_world))) = {} \<and>
   new_events (start rejecting_world)
     (state_of (process_file sim_ops hook True ''/srv/t'' ''/srv/t/processed'' ''a.txt''
                  (start rejecting_world))) =
     [Getsize First ''/srv/t/a.txt'', Sleep (Millis 200), Getsize Second ''/srv/t/a.txt'',
      OpenRead ''/srv/t/a.txt'', Post ''/srv/t/a.txt'' hook (make_payload ''a'' ''hello'' True)] \<and>
   is_Normal (process_file sim_ops hook True ''/srv/t'' ''/srv/t/processed'' ''a.txt''
                (start rejecting_world))"
proof -
  let ?st = "start rejecting_world"
  let ?p = "probe_stable sim_ops ''/srv/t/a.txt'' ?st"
  let ?r = "read_text sim_ops ''/srv/t/a.txt'' (snd ?p)"
  let ?q = "requests_post sim_ops hook (make_payload ''a'' ''hello'' True) (world (snd ?r))"
  have j: "os_path_join ''/srv/t'' ''a.txt'' = ''/srv/t/a.txt''" by code_simp
  have m: "fst (os_path_splitext ''a.txt'') = ''a''" by code_simp
  have h1: "fst ?p = Inr True" by code_simp
  have h2: "fst ?r = Inr ''hello''" by code_simp
  have h3: "fst ?q = rejected" by code_simp
  have w: "world (snd ?r) = rejecting_world" by code_simp
  have c0: "in_processed sim_ops ''/srv/t/a.txt'' ''/srv/t/processed'' = Inr False" by code_simp
  have cand: "is_candidate sim_ops (os_path_join ''/srv/t'' ''a.txt'') ''/srv/t/processed'' ?st (snd ?p)"
    using h1 c0 unfolding j by (simp add: is_candidate_def start_def prod_eq_iff)
  have rd: "read_text sim_ops (os_path_join ''/srv/t'' ''a.txt'') (snd ?p) = (Inr ''hello'', snd ?r)"
    using h2 unfolding j by (simp add: prod_eq_iff)
  have po: "requests_post sim_ops hook (make_payload (fst (os_path_splitext ''a.txt'')) ''hello'' True)
              (world (snd ?r)) = (rejected, snd ?q)"
    using h3 unfolding m by (simp add: prod_eq_iff)
  have fail: "(\<exists>e. rejected = Inl e) \<or>
              (\<exists>resp. rejected = Inr resp \<and> \<not> (200 \<le> status_code resp \<and> status_code resp < 300))"
    by (simp add: rejected_def)
  note t = failed_post_leaves_candidate[OF cand rd po fail, unfolded j m]
  from t have a: "seen (state_of (process_file sim_ops hook True ''/srv/t'' ''/srv/t/processed''
                     ''a.txt'' ?st)) = {}"
    and b: "new_events ?st
     (state_of (process_file sim_ops hook True ''/srv/t'' ''/srv/t/processed'' ''a.txt'' ?st)) =
     [Getsize First ''/srv/t/a.txt'', Sleep (Millis 200), Getsize Second ''/srv/t/a.txt'',
      OpenRead ''/srv/t/a.txt'', Post ''/srv/t/a.txt'' hook (make_payload ''a'' ''hello'' True)]"
    and c: "is_Normal (process_file sim_ops hook True ''/srv/t'' ''/srv/t/processed'' ''a.txt'' ?st)"
    by (simp_all add: start_def rejected_def)
  from a b c h1 h2 h3 show ?thesis
    unfolding w by simp
qed

text \<open>
  C5: when the POST is answered with a status in [200, 300) and the rename into the
  archive then raises an error, the path is added to the seen set all the same, the
  iteration ends normally, and no later iteration touches the path again.
\<close>

theorem delivered_but_not_archived_is_seen:
  assumes cand: "is_candidate ops (os_path_join d fn) pd st st1"
    and rd: "read_text ops (os_path_join d fn) st1 = (Inr transcript, st2)"
    and po: "requests_post ops url (make_payload (fst (os_path_splitext fn)) transcript stage)
               (world st2) = (Inr resp, w3)"
    and ok: "200 \<le> status_code resp \<and> status_code resp < 300"
    and now: "datetime_utcnow ops w3 = (Inr now, w4)"
    and rn: "os_rename ops (os_path_join d fn)
               (os_path_join pd (archive_name (fst (os_path_splitext fn)) now)) w4 = (Inl e, w5)"
    and exc: "is_Exception e"
  shows "is_Normal (process_file ops url stage d pd fn st) \<and>
         seen (state_of (process_file ops url stage d pd fn st)) = insert (os_path_join d fn) (seen st) \<and>
         world (state_of (process_file ops url stage d pd fn st)) = w5 \<and>
         new_events st (state_of (process_file ops url stage d pd fn st)) =
           [Getsize First (os_path_join d fn), Sleep (Millis 200),
            Getsize Second (os_path_join d fn), OpenRead (os_path_join d fn),
            Post (os_path_join d fn) url
              (make_payload (fst (os_path_splitext fn)) transcript stage),
            Utcnow (os_path_join d fn),
            Rename (os_path_join d fn)
              (os_path_join pd (archive_name (fst (os_path_splitext fn)) now))] \<and>
         (\<forall>n. \<forall>ev \<in> set (new_events (state_of (process_file ops url stage d pd fn st))
                   (state_of (while_true n ops url stage pi d pd
                      (state_of (process_file ops url stage d pd fn st))))).
            \<not> attempt_on (os_path_join d fn) ev)"
proof -
  let ?full = "os_path_join d fn"
  let ?mid = "fst (os_path_splitext fn)"
  let ?body = "make_payload ?mid transcript stage"
  let ?dest = "os_path_join pd (archive_name ?mid now)"
  let ?st3 = "st2\<lparr>world := w3, trace := trace st2 @ [Post ?full url ?body]\<rparr>"
  let ?st5 = "?st3\<lparr>world := w5, trace := trace ?st3 @ [Utcnow ?full, Rename ?full ?dest]\<rparr>"
  have c: "call (requests_post ops url ?body) (Post ?full url ?body) st2 = (Inr resp, ?st3)"
    using po by (simp add: call_def)
  have now': "datetime_utcnow ops (world ?st3) = (Inr now, w4)" using now by simp
  have ar: "archive ops pd ?full ?mid ?st3 = (Inr (), ?st5)"
    using archive_renamed[OF now' rn] exc by simp
  note cf = candidate_frame[OF cand]
  note rf = read_text_frame[OF rd]
  have out: "process_file ops url stage d pd fn st = Normal (mark_seen ?full ?st5)"
    unfolding process_file_candidate[OF cand] deliver_posted[OF rd c]
    using ok ar by simp
  have tr: "trace (mark_seen ?full ?st5) = trace st @ [Getsize First ?full, Sleep (Millis 200),
            Getsize Second ?full, OpenRead ?full, Post ?full url ?body, Utcnow ?full,
            Rename ?full ?dest]"
    using cf rf by simp
  have sn: "?full \<in> seen (mark_seen ?full ?st5)" by simp
  show ?thesis
    unfolding out using cf rf new_events_append[OF tr] skipped_later[OF sn]
    by simp
qed

theorem delivered_but_not_archived_is_seen_witness:
  "fst (requests_post sim_ops hook (make_payload ''a'' ''hello'' True) no_archive_world) = accepted \<and>
   fst (os_rename sim_ops ''/srv/t/a.txt'' ''/srv/t/processed/a.20240115T093000Z.txt''
          (no_archive_world\<lparr>clock := [], webhook := []\<rparr>)) = Inl FileNotFoundError \<and>
   is_Normal (process_file sim_ops hook True ''/srv/t'' ''/srv/t/processed'' ''a.txt''
                (start no_archive_world)) \<and>
   seen (state_of (process_file sim_ops hook True ''/srv/t'' ''/srv/t/processed'' ''a.txt''
                     (start no_archive_world))) = {''/srv/t/a.txt''} \<and>
   fs (world (state_of (process_file sim_ops hook True ''/srv/t'' ''/srv/t/processed'' ''a.txt''
                          (start no_archive_world)))) = fs no_archive_world \<and>
   new_events (start no_archive_world)
     (state_of (process_file sim_ops hook True ''/srv/t'' ''/srv/t/processed'' ''a.txt''
                  (start no_archive_world))) =
     [Getsize First ''/srv/t/a.txt'', Sleep (Millis 200), Getsize Second ''/srv/t/a.txt'',
      OpenRead ''/srv/t/a.txt'', Post ''/srv/t/a.txt'' hook (make_payload ''a'' ''hello'' True),
      Utcnow ''/srv/t/a.txt'',
      Rename ''/srv/t/a.txt'' ''/srv/t/processed/a.20240115T093000Z.txt''] \<and>
   filter (attempt_on ''/srv/t/a.txt'')
     (new_events
        (state_of (process_file sim_ops hook True ''/srv/t'' ''/srv/t/processed'' ''a.txt''
                     (start no_archive_world)))
        (state_of (while_true 2 sim_ops hook True 5 ''/srv/t'' ''/srv/t/processed''
           (state_of (process_file sim_ops hook True ''/srv/t'' ''/srv/t/processed'' ''a.txt''
                        (start no_archive_world)))))) = []"
proof -
  let ?st = "start no_archive_world"
  let ?p = "probe_stable sim_ops ''/srv/t/a.txt'' ?st"
  let ?r = "read_text sim_ops ''/srv/t/a.txt'' (snd ?p)"
  let ?q = "requests_post sim_ops hook (make_payload ''a'' ''hello'' True) (world (snd ?r))"
  let ?u = "datetime_utcnow sim_ops (snd ?q)"
  let ?dest = "''/srv/t/processed/a.20240115T093000Z.txt''"
  let ?m = "os_rename sim_ops ''/srv/t/a.txt'' ?dest (snd ?u)"
  let ?resp = "\<lparr>status_code = 200, resp_text = ''ok''\<rparr>"
  have j: "os_path_join ''/srv/t'' ''a.txt'' = ''/srv/t/a.txt''" by code_simp
  have m: "fst (os_path_splitext ''a.txt'') = ''a''" by code_simp
  have dst: "os_path_join ''/srv/t/processed'' (archive_name ''a'' (half_past_nine 0)) = ?dest"
    by code_simp
  have h1: "fst ?p = Inr True" by code_simp
  have h2: "fst ?r = Inr ''hello''" by code_simp
  have h3: "fst ?q = Inr ?resp" by code_simp
  have h4: "fst ?u = Inr (half_past_nine 0)" by code_simp
  have h5: "fst ?m = Inl FileNotFoundError" by code_simp
  have w2: "world (snd ?r) = no_archive_world" by code_simp
  have w4: "snd ?u = no_archive_world\<lparr>clock := [], webhook := []\<rparr>" by code_simp
  have w5: "fs (snd ?m) = fs no_archive_world" by code_simp
  have c0: "in_processed sim_ops ''/srv/t/a.txt'' ''/srv/t/processed'' = Inr False" by code_simp
  have cand: "is_candidate sim_ops (os_path_join ''/srv/t'' ''a.txt'') ''/srv/t/processed'' ?st (snd ?p)"
    using h1 c0 unfolding j by (simp add: is_candidate_def start_def prod_eq_iff)
  have rd: "read_text sim_ops (os_path_join ''/srv/t'' ''a.txt'') (snd ?p) = (Inr ''hello'', snd ?r)"
    using h2 unfolding j by (simp add: prod_eq_iff)
  have po: "requests_post sim_ops hook (make_payload (fst (os_path_splitext ''a.txt'')) ''hello'' True)
              (world (snd ?r)) = (Inr ?resp, snd ?q)"
    using h3 unfolding m by (simp add: prod_eq_iff)
  have ok: "200 \<le> status_code ?resp \<and> status_code ?resp < 300" by simp
  have now: "datetime_utcnow sim_ops (snd ?q) = (Inr (half_past_nine 0), snd ?u)"
    using h4 by (simp add: prod_eq_iff)
  have rn: "os_rename sim_ops (os_path_join ''/srv/t'' ''a.txt'')
              (os_path_join ''/srv/t/processed''
                 (archive_name (fst (os_path_splitext ''a.txt'')) (half_past_nine 0)))
              (snd ?u) = (Inl FileNotFoundError, snd ?m)"
    using h5 unfolding j m dst by (simp add: prod_eq_iff)
  have exc: "is_Exception FileNotFoundError" by simp
  note t = delivered_but_not_archived_is_seen[OF cand rd po ok now rn exc, of 5, unfolded j m dst]
  from t have a: "is_Normal (process_file sim_ops hook True ''/srv/t'' ''/srv/t/processed'' ''a.txt'' ?st)"
    and b: "seen (state_of (process_file sim_ops hook True ''/srv/t'' ''/srv/t/processed'' ''a.txt'' ?st))
            = {''/srv/t/a.txt''}"
    and c: "world (state_of (process_file sim_ops hook True ''/srv/t'' ''/srv/t/processed'' ''a.txt'' ?st))
            = snd ?m"
    and d: "new_events ?st
       (state_of (process_file sim_ops hook True ''/srv/t'' ''/srv/t/processed'' ''a.txt'' ?st)) =
     [Getsize First ''/srv/t/a.txt'', Sleep (Millis 200), Getsize Second ''/srv/t/a.txt'',
      OpenRead ''/srv/t/a.txt'', Post ''/srv/t/a.txt'' hook (make_payload ''a'' ''hello'' True),
      Utcnow ''/srv/t/a.txt'', Rename ''/srv/t/a.txt'' ?dest]"
    by (simp_all add: start_def)
  from t have e: "filter (attempt_on ''/srv/t/a.txt'')
     (new_events
        (state_of (process_file sim_ops hook True ''/srv/t'' ''/srv/t/processed'' ''a.txt'' ?st))
        (state_of (while_true 2 sim_ops hook True 5 ''/srv/t'' ''/srv/t/processed''
           (state_of (process_file sim_ops hook True ''/srv/t'' ''/srv/t/processed'' ''a.txt'' ?st))))) = []"
    unfolding filter_empty_conv by blast
  have f: "fst (requests_post sim_ops hook (make_payload ''a'' ''hello'' True) no_archive_world) = accepted"
    using h3 unfolding w2 by (simp add: accepted_def)
  have g: "fst (os_rename sim_ops ''/srv/t/a.txt'' ?dest
          (no_archive_world\<lparr>clock := [], webhook := []\<rparr>)) = Inl FileNotFoundError"
    using h5 unfolding w4 .
  from a b c d e f g w5 show ?thesis by simp
qed

text \<open>
  C6: when reading the content of a candidate fails, the path is added to the seen set
  and the iteration ends there: nothing is posted, nothing is renamed, and no later
  iteration touches the path again.
\<close>

theorem unreadable_candidate_is_seen:
  assumes cand: "is_candidate ops (os_path_join d fn) pd st st1"
    and rd: "read_text ops (os_path_join d fn) st1 = (Inl e, st2)"
    and exc: "is_Exception e"
  shows "is_Normal (process_file ops url stage d pd fn st) \<and>
         seen (state_of (process_file ops url stage d pd fn st)) = insert (os_path_join d fn) (seen st) \<and>
         world (state_of (process_file ops url stage d pd fn st)) = world st2 \<and>
         new_events st (state_of (process_file ops url stage d pd fn st)) =
           [Getsize First (os_path_join d fn), Sleep (Millis 200),
            Getsize Second (os_path_join d fn), OpenRead (os_path_join d fn)] \<and>
         (\<forall>n. \<forall>ev \<in> set (new_events (state_of (process_file ops url stage d pd fn st))
                   (state_of (while_true n ops url stage pi d pd
                      (state_of (process_file ops url stage d pd fn st))))).
            \<not> attempt_on (os_path_join d fn) ev)"
proof -
  let ?full = "os_path_join d fn"
  note out = read_failure_marks_seen(1)[OF cand rd exc, of url stage]
  note rf = read_failure_marks_seen(2,3)[OF cand rd exc]
  have tr: "trace (mark_seen ?full st2) = trace st @ [Getsize First ?full, Sleep (Millis 200),
            Getsize Second ?full, OpenRead ?full]"
    using rf(2) by simp
  have sn: "?full \<in> seen (mark_seen ?full st2)" by simp
  show ?thesis
    unfolding out using rf(1) new_events_append[OF tr] skipped_later[OF sn]
    by simp
qed

theorem unreadable_candidate_is_seen_witness:
  "fst (read_text sim_ops ''/srv/t/a.txt''
          (snd (probe_stable sim_ops ''/srv/t/a.txt'' (start unreadable_world)))) =
     Inl (OtherException ''PermissionError'') \<and>
   is_Normal (process_file sim_ops hook True ''/srv/t'' ''/srv/t/processed'' ''a.txt''
                (start unreadable_world)) \<and>
   seen (state_of (process_file sim_ops hook True ''/srv/t'' ''/srv/t/processed'' ''a.txt''
                     (start unreadable_world))) = {''/srv/t/a.txt''} \<and>
   new_events (start unreadable_world)
     (state_of (process_file sim_ops hook True ''/srv/t'' ''/srv/t/processed'' ''a.txt''
                  (start unreadable_world))) =
     [Getsize First ''/srv/t/a.txt'', Sleep (Millis 200), Getsize Second ''/srv/t/a.txt'',
      OpenRead ''/srv/t/a.txt''] \<and>
   filter (attempt_on ''/srv/t/a.txt'')
     (new_events
        (state_of (process_file sim_ops hook True ''/srv/t'' ''/srv/t/processed'' ''a.txt''
                     (start unreadable_world)))
        (state_of (while_true 2 sim_ops hook True 5 ''/srv/t'' ''/srv/t/processed''
           (state_of (process_file sim_ops hook True ''/srv/t'' ''/srv/t/processed'' ''a.txt''
                        (start unreadable_world)))))) = []"
proof -
  let ?st = "start unreadable_world"
  let ?p = "probe_stable sim_ops ''/srv/t/a.txt'' ?st"
  have j: "os_path_join ''/srv/t'' ''a.txt'' = ''/srv/t/a.txt''" by code_simp
  have h1: "fst ?p = Inr True" by code_simp
  have c0: "in_processed sim_ops ''/srv/t/a.txt'' ''/srv/t/processed'' = Inr False" by code_simp
  have cand: "is_candidate sim_ops (os_path_join ''/srv/t'' ''a.txt'') ''/srv/t/processed'' ?st (snd ?p)"
    using h1 c0 unfolding j by (simp add: is_candidate_def start_def prod_eq_iff)
  let ?r = "read_text sim_ops ''/srv/t/a.txt'' (snd ?p)"
  have h: "fst ?r = Inl (OtherException ''PermissionError'')" by code_simp
  have rd: "read_text sim_ops (os_path_join ''/srv/t'' ''a.txt'') (snd ?p) =
              (Inl (OtherException ''PermissionError''), snd ?r)"
    using h unfolding j by (simp add: prod_eq_iff)
  have exc: "is_Exception (OtherException ''PermissionError'')" by simp
  note t = unreadable_candidate_is_seen[OF cand rd exc, of hook True 5, unfolded j]
  from t have a: "is_Normal (process_file sim_ops hook True ''/srv/t'' ''/srv/t/processed'' ''a.txt'' ?st)"
    and b: "seen (state_of (process_file sim_ops hook True ''/srv/t'' ''/srv/t/processed'' ''a.txt'' ?st))
            = {''/srv/t/a.txt''}"
    and d: "new_events ?st
       (state_of (process_file sim_ops hook True ''/srv/t'' ''/srv/t/processed'' ''a.txt'' ?st)) =
     [Getsize First ''/srv/t/a.txt'', Sleep (Millis 200), Getsize Second ''/srv/t/a.txt'',
      OpenRead ''/srv/t/a.txt'']"
    by (simp_all add: start_def)
  from t have e: "filter (attempt_on ''/srv/t/a.txt'')
     (new_events
        (state_of (process_file sim_ops hook True ''/srv/t'' ''/srv/t/processed'' ''a.txt'' ?st))
        (state_of (while_true 2 sim_ops hook True 5 ''/srv/t'' ''/srv/t/processed''
           (state_of (process_file sim_ops hook True ''/srv/t'' ''/srv/t/processed'' ''a.txt'' ?st))))) = []"
    unfolding filter_empty_conv by blast
  from a b d e h show ?thesis by simp
qed

text \<open>
  C10: when the bytes of a candidate are not valid UTF-8, the read raises
  \<open>UnicodeDecodeError\<close>; the path is added to the seen set, nothing is posted, and no
  later iteration touches the path again.
\<close>

theorem invalid_utf8_is_seen:
  assumes cand: "is_candidate ops (os_path_join d fn) pd st st1"
    and rb: "read_bytes ops (os_path_join d fn) (world st1) = (Inr bs, w2)"
    and bad: "\<not> utf8_valid bs"
  shows "fst (read_text ops (os_path_join d fn) st1) = Inl UnicodeDecodeError \<and>
         is_Normal (process_file ops url stage d pd fn st) \<and>
         seen (state_of (process_file ops url stage d pd fn st)) = insert (os_path_join d fn) (seen st) \<and>
         world (state_of (process_file ops url stage d pd fn st)) = w2 \<and>
         new_events st (state_of (process_file ops url stage d pd fn st)) =
           [Getsize First (os_path_join d fn), Sleep (Millis 200),
            Getsize Second (os_path_join d fn), OpenRead (os_path_join d fn)] \<and>
         (\<forall>n. \<forall>ev \<in> set (new_events (state_of (process_file ops url stage d pd fn st))
                   (state_of (while_true n ops url stage pi d pd
                      (state_of (process_file ops url stage d pd fn st))))).
            \<not> attempt_on (os_path_join d fn) ev)"
proof -
  let ?full = "os_path_join d fn"
  let ?st2 = "st1\<lparr>world := w2, trace := trace st1 @ [OpenRead ?full]\<rparr>"
  have rd: "read_text ops ?full st1 = (Inl UnicodeDecodeError, ?st2)"
    using rb bad by (simp add: read_text_def call_def)
  have exc: "is_Exception UnicodeDecodeError" by simp
  note out = read_failure_marks_seen(1)[OF cand rd exc, of url stage]
  note rf = read_failure_marks_seen(2,3)[OF cand rd exc]
  have tr: "trace (mark_seen ?full ?st2) = trace st @ [Getsize First ?full, Sleep (Millis 200),
            Getsize Second ?full, OpenRead ?full]"
    using rf(2) by simp
  have sn: "?full \<in> seen (mark_seen ?full ?st2)" by simp
  have sn2: "seen ?st2 = seen st" using rf(1) .
  show ?thesis
    unfolding out using rd sn2 new_events_append[OF tr] skipped_later[OF sn]
    by simp
qed

theorem invalid_utf8_is_seen_witness:
  "fst (read_bytes sim_ops ''/srv/t/a.txt'' latin1_world) = Inr [CHR 0xC3, CHR 0x28] \<and>
   \<not> utf8_valid [CHR 0xC3, CHR 0x28] \<and>
   is_Normal (process_file sim_ops hook True ''/srv/t'' ''/srv/t/processed'' ''a.txt''
                (start latin1_world)) \<and>
   seen (state_of (process_file sim_ops hook True ''/srv/t'' ''/srv/t/processed'' ''a.txt''
                     (start latin1_world))) = {''/srv/t/a.txt''} \<and>
   new_events (start latin1_world)
     (state_of (process_file sim_ops hook True ''/srv/t'' ''/srv/t/processed'' ''a.txt''
                  (start latin1_world))) =
     [Getsize First ''/srv/t/a.txt'', Sleep (Millis 200), Getsize Second ''/srv/t/a.txt'',
      OpenRead ''/srv/t/a.txt''] \<and>
   filter (attempt_on ''/srv/t/a.txt'')
     (new_events
        (state_of (process_file sim_ops hook True ''/srv/t'' ''/srv/t/processed'' ''a.txt''
                     (start latin1_world)))
        (state_of (while_true 2 sim_ops hook True 5 ''/srv/t'' ''/srv/t/processed''
           (state_of (process_file sim_ops hook True ''/srv/t'' ''/srv/t/processed'' ''a.txt''
                        (start latin1_world)))))) = []"
proof -
  let ?st = "start latin1_world"
  let ?p = "probe_stable sim_ops ''/srv/t/a.txt'' ?st"
  have j: "os_path_join ''/srv/t'' ''a.txt'' = ''/srv/t/a.txt''" by code_simp
  have h1: "fst ?p = Inr True" by code_simp
  have c0: "in_processed sim_ops ''/srv/t/a.txt'' ''/srv/t/processed'' = Inr False" by code_simp
  have cand: "is_candidate sim_ops (os_path_join ''/srv/t'' ''a.txt'') ''/srv/t/processed'' ?st (snd ?p)"
    using h1 c0 unfolding j by (simp add: is_candidate_def start_def prod_eq_iff)
  let ?r = "read_bytes sim_ops ''/srv/t/a.txt'' (world (snd ?p))"
  have w1: "world (snd ?p) = latin1_world" by code_simp
  have h0: "fst ?r = Inr [CHR 0xC3, CHR 0x28]" by code_simp
  have bad: "\<not> utf8_valid [CHR 0xC3, CHR 0x28]" by code_simp
  have rb: "read_bytes sim_ops (os_path_join ''/srv/t'' ''a.txt'') (world (snd ?p)) =
              (Inr [CHR 0xC3, CHR 0x28], snd ?r)"
    using h0 unfolding j by (simp add: prod_eq_iff)
  have h: "fst (read_bytes sim_ops ''/srv/t/a.txt'' latin1_world) = Inr [CHR 0xC3, CHR 0x28] \<and>
   \<not> utf8_valid [CHR 0xC3, CHR 0x28]"
    using h0 bad unfolding w1 by simp
  note t = invalid_utf8_is_seen[OF cand rb bad, of hook True 5, unfolded j]
  from t have a: "is_Normal (process_file sim_ops hook True ''/srv/t'' ''/srv/t/processed'' ''a.txt'' ?st)"
    and b: "seen (state_of (process_file sim_ops hook True ''/srv/t'' ''/srv/t/processed'' ''a.txt'' ?st))
            = {''/srv/t/a.txt''}"
    and d: "new_events ?st
       (state_of (process_file sim_ops hook True ''/srv/t'' ''/srv/t/processed'' ''a.txt'' ?st)) =
     [Getsize First ''/srv/t/a.txt'', Sleep (Millis 200), Getsize Second ''/srv/t/a.txt'',
      OpenRead ''/srv/t/a.txt'']"
    by (simp_all add: start_def)
  from t have e: "filter (attempt_on ''/srv/t/a.txt'')
     (new_events
        (state_of (process_file sim_ops hook True ''/srv/t'' ''/srv/t/processed'' ''a.txt'' ?st))
        (state_of (while_true 2 sim_ops hook True 5 ''/srv/t'' ''/srv/t/processed''
           (state_of (process_file sim_ops hook True ''/srv/t'' ''/srv/t/processed'' ''a.txt'' ?st))))) = []"
    unfolding filter_empty_conv by blast
  from a b d e h show ?thesis by simp
qed

text \<open>
  C7: when the first size probe raises an error, or the second one does, or the two
  sizes differ, the iteration ends without any read, POST or rename; the path is not
  added to the seen set, so an iteration of a later cycle probes it again.
\<close>

theorem unstable_candidate_skipped:
  assumes chk: "in_processed ops (os_path_join d fn) pd = Inr False"
    and new: "os_path_join d fn \<notin> seen st"
    and bad: "(\<exists>e w1. os_path_getsize ops (os_path_join d fn) (world st) = (Inl e, w1) \<and>
                  is_Exception e) \<or>
              (\<exists>s1 w1 w2 r2 w3.
                  os_path_getsize ops (os_path_join d fn) (world st) = (Inr s1, w1) \<and>
                  time_sleep ops (Millis 200) w1 = (Inr (), w2) \<and>
                  os_path_getsize ops (os_path_join d fn) w2 = (r2, w3) \<and>
                  (case r2 of Inl e \<Rightarrow> is_Exception e | Inr s2 \<Rightarrow> s2 \<noteq> s1))"
  shows "is_Normal (process_file ops url stage d pd fn st) \<and>
         seen (state_of (process_file ops url stage d pd fn st)) = seen st \<and>
         os_path_join d fn \<notin> seen (state_of (process_file ops url stage d pd fn st)) \<and>
         (\<forall>ev \<in> set (new_events st (state_of (process_file ops url stage d pd fn st))).
            \<not> is_delivery ev) \<and>
         (\<forall>st'. seen st' = seen (state_of (process_file ops url stage d pd fn st)) \<longrightarrow>
            first_probes (new_events st' (state_of (process_file ops url stage d pd fn st'))) =
              [os_path_join d fn])"
proof -
  let ?full = "os_path_join d fn"
  let ?out = "process_file ops url stage d pd fn st"
  have "\<exists>r st1 evs. probe_stable ops ?full st = (r, st1) \<and> r \<noteq> Inr True \<and>
          (\<forall>e. r = Inl e \<longrightarrow> is_Exception e) \<and> trace st1 = trace st @ evs \<and>
          set evs \<subseteq> {Getsize First ?full, Sleep (Millis 200), Getsize Second ?full} \<and>
          seen st1 = seen st"
    using bad
  proof (elim disjE exE conjE)
    fix e w1
    assume "os_path_getsize ops ?full (world st) = (Inl e, w1)" "is_Exception e"
    then show ?thesis using probe_first_failed[of ops ?full st e w1]
      by (intro exI[of _ "Inl e"] exI[of _ "st\<lparr>world := w1, trace := trace st @ [Getsize First ?full]\<rparr>"]
               exI[of _ "[Getsize First ?full]"]) simp
  next
    fix s1 w1 w2 r2 w3
    assume a: "os_path_getsize ops ?full (world st) = (Inr s1, w1)"
      "time_sleep ops (Millis 200) w1 = (Inr (), w2)"
      "os_path_getsize ops ?full w2 = (r2, w3)"
      and b: "case r2 of Inl e \<Rightarrow> is_Exception e | Inr s2 \<Rightarrow> s2 \<noteq> s1"
    show ?thesis using probe_second[OF a] b
      by (intro exI[of _ "case r2 of Inl e \<Rightarrow> Inl e | Inr s2 \<Rightarrow> Inr (s1 = s2)"]
               exI[of _ "st\<lparr>world := w3, trace := trace st @
                   [Getsize First ?full, Sleep (Millis 200), Getsize Second ?full]\<rparr>"]
               exI[of _ "[Getsize First ?full, Sleep (Millis 200), Getsize Second ?full]"])
         (auto split: sum.splits)
  qed
  then obtain r st1 evs where p: "probe_stable ops ?full st = (r, st1)" and r: "r \<noteq> Inr True"
    and ex: "\<forall>e. r = Inl e \<longrightarrow> is_Exception e" and tr: "trace st1 = trace st @ evs"
    and ev: "set evs \<subseteq> {Getsize First ?full, Sleep (Millis 200), Getsize Second ?full}"
    and sn: "seen st1 = seen st" by blast
  have out: "?out = Normal st1"
    using process_file_probed[OF chk new p, of url stage] r ex
    by (auto split: sum.splits bool.splits)
  have nd: "\<forall>ev \<in> set evs. \<not> is_delivery ev" using ev by auto
  have again: "\<forall>st'. seen st' = seen st1 \<longrightarrow>
            first_probes (new_events st' (state_of (process_file ops url stage d pd fn st'))) = [?full]"
    using process_file_reprobes[OF chk] new sn by metis
  show ?thesis
    unfolding out using sn new nd again new_events_append[OF tr] by simp
qed

theorem unstable_candidate_skipped_witness:
  "fst (os_path_getsize sim_ops ''/srv/t/partial.txt'' growing_world) = Inr 3 \<and>
   fst (os_path_getsize sim_ops ''/srv/t/partial.txt''
          (snd (time_sleep sim_ops (Millis 200) growing_world))) = Inr 6 \<and>
   is_Normal (process_file sim_ops hook True ''/srv/t'' ''/srv/t/processed'' ''partial.txt''
                (start growing_world)) \<and>
   seen (state_of (process_file sim_ops hook True ''/srv/t'' ''/srv/t/processed'' ''partial.txt''
                     (start growing_world))) = {} \<and>
   filter is_delivery
     (new_events (start growing_world)
        (state_of (process_file sim_ops hook True ''/srv/t'' ''/srv/t/processed'' ''partial.txt''
                     (start growing_world)))) = [] \<and>
   new_events (start growing_world)
     (state_of (process_file sim_ops hook True ''/srv/t'' ''/srv/t/processed'' ''partial.txt''
                  (start growing_world))) =
     [Getsize First ''/srv/t/partial.txt'', Sleep (Millis 200),
      Getsize Second ''/srv/t/partial.txt'']"
proof -
  let ?st = "start growing_world"
  let ?f = "''/srv/t/partial.txt''"
  let ?g1 = "os_path_getsize sim_ops ?f growing_world"
  let ?sl = "time_sleep sim_ops (Millis 200) (snd ?g1)"
  let ?g2 = "os_path_getsize sim_ops ?f (snd ?sl)"
  have j: "os_path_join ''/srv/t'' ''partial.txt'' = ?f" by code_simp
  have c0: "in_processed sim_ops (os_path_join ''/srv/t'' ''partial.txt'') ''/srv/t/processed'' = Inr False"
    by code_simp
  have new: "os_path_join ''/srv/t'' ''partial.txt'' \<notin> seen ?st" by (simp add: start_def)
  have w: "world ?st = growing_world" by (simp add: start_def)
  have h1: "fst ?g1 = Inr 3" by code_simp
  have h2: "fst ?sl = Inr ()" by code_simp
  have h3: "fst ?g2 = Inr 6" by code_simp
  have w1: "snd ?g1 = growing_world" by code_simp
  have e1: "os_path_getsize sim_ops ?f (world ?st) = (Inr 3, snd ?g1)"
    using h1 unfolding w by (simp add: prod_eq_iff)
  have e2: "time_sleep sim_ops (Millis 200) (snd ?g1) = (Inr (), snd ?sl)"
    using h2 by (simp add: prod_eq_iff)
  have e3: "os_path_getsize sim_ops ?f (snd ?sl) = (Inr 6, snd ?g2)"
    using h3 by (simp add: prod_eq_iff)
  have bad: "(\<exists>e w1. os_path_getsize sim_ops (os_path_join ''/srv/t'' ''partial.txt'') (world ?st) =
                  (Inl e, w1) \<and> is_Exception e) \<or>
              (\<exists>s1 w1 w2 r2 w3.
                  os_path_getsize sim_ops (os_path_join ''/srv/t'' ''partial.txt'') (world ?st) =
                    (Inr s1, w1) \<and>
                  time_sleep sim_ops (Millis 200) w1 = (Inr (), w2) \<and>
                  os_path_getsize sim_ops (os_path_join ''/srv/t'' ''partial.txt'') w2 = (r2, w3) \<and>
                  (case r2 of Inl e \<Rightarrow> is_Exception e | Inr s2 \<Rightarrow> s2 \<noteq> s1))"
    unfolding j
    by (rule disjI2, rule exI[of _ 3], rule exI[of _ "snd ?g1"], rule exI[of _ "snd ?sl"],
        rule exI[of _ "Inr 6"], rule exI[of _ "snd ?g2"], intro conjI, rule e1, rule e2, rule e3)
       simp
  note t = unstable_candidate_skipped[OF c0 new bad, of hook True, unfolded j]
  have run: "new_events ?st
     (state_of (process_file sim_ops hook True ''/srv/t'' ''/srv/t/processed'' ''partial.txt'' ?st)) =
     [Getsize First ?f, Sleep (Millis 200), Getsize Second ?f]"
    by code_simp
  from t have a: "is_Normal (process_file sim_ops hook True ''/srv/t'' ''/srv/t/processed'' ''partial.txt'' ?st)"
    and b: "seen (state_of (process_file sim_ops hook True ''/srv/t'' ''/srv/t/processed'' ''partial.txt'' ?st)) = {}"
    by (simp_all add: start_def)
  from t have c: "filter is_delivery (new_events ?st
        (state_of (process_file sim_ops hook True ''/srv/t'' ''/srv/t/processed'' ''partial.txt'' ?st))) = []"
    unfolding filter_empty_conv by blast
  from a b c run h1 h3 show ?thesis unfolding w1 by simp
qed

text \<open>
  C9, as the code has it: an entry with a \<open>.txt\<close> name passes the extension filter; when
  both size probes succeed with the same value and opening the entry for reading raises an
  error (a subdirectory, a file without read permission), the path is added to the seen
  set, the iteration ends normally without a POST or a rename, and no later iteration
  touches the path again.
\<close>

theorem unopenable_entry_is_seen:
  assumes ext: "is_txt fn"
    and cand: "is_candidate ops (os_path_join d fn) pd st st1"
    and rb: "read_bytes ops (os_path_join d fn) (world st1) = (Inl e, w2)"
    and exc: "is_Exception e"
  shows "filter is_txt [fn] = [fn] \<and>
         is_Normal (process_file ops url stage d pd fn st) \<and>
         seen (state_of (process_file ops url stage d pd fn st)) = insert (os_path_join d fn) (seen st) \<and>
         world (state_of (process_file ops url stage d pd fn st)) = w2 \<and>
         new_events st (state_of (process_file ops url stage d pd fn st)) =
           [Getsize First (os_path_join d fn), Sleep (Millis 200),
            Getsize Second (os_path_join d fn), OpenRead (os_path_join d fn)] \<and>
         (\<forall>n. \<forall>ev \<in> set (new_events (state_of (process_file ops url stage d pd fn st))
                   (state_of (while_true n ops url stage pi d pd
                      (state_of (process_file ops url stage d pd fn st))))).
            \<not> attempt_on (os_path_join d fn) ev)"
proof -
  let ?full = "os_path_join d fn"
  let ?st2 = "st1\<lparr>world := w2, trace := trace st1 @ [OpenRead ?full]\<rparr>"
  have rd: "read_text ops ?full st1 = (Inl e, ?st2)"
    using rb by (simp add: read_text_def call_def)
  note out = read_failure_marks_seen(1)[OF cand rd exc, of url stage]
  note rf = read_failure_marks_seen(2,3)[OF cand rd exc]
  have tr: "trace (mark_seen ?full ?st2) = trace st @ [Getsize First ?full, Sleep (Millis 200),
            Getsize Second ?full, OpenRead ?full]"
    using rf(2) by simp
  have sn: "?full \<in> seen (mark_seen ?full ?st2)" by simp
  have sn2: "seen ?st2 = seen st" using rf(1) .
  show ?thesis
    unfolding out using ext sn2 new_events_append[OF tr] skipped_later[OF sn]
    by simp
qed

theorem unopenable_entry_is_seen_witness:
  "is_txt ''notes.txt'' \<and>
   fst (probe_stable sim_ops ''/srv/t/notes.txt'' (start subdir_world)) = Inr True \<and>
   fst (read_bytes sim_ops ''/srv/t/notes.txt'' subdir_world) =
     Inl (OtherException ''IsADirectoryError'') \<and>
   is_Normal (process_file sim_ops hook True ''/srv/t'' ''/srv/t/processed'' ''notes.txt''
                (start subdir_world)) \<and>
   seen (state_of (process_file sim_ops hook True ''/srv/t'' ''/srv/t/processed'' ''notes.txt''
                     (start subdir_world))) = {''/srv/t/notes.txt''} \<and>
   new_events (start subdir_world)
     (state_of (process_file sim_ops hook True ''/srv/t'' ''/srv/t/processed'' ''notes.txt''
                  (start subdir_world))) =
     [Getsize First ''/srv/t/notes.txt'', Sleep (Millis 200), Getsize Second ''/srv/t/notes.txt'',
      OpenRead ''/srv/t/notes.txt'']"
proof -
  let ?st = "start subdir_world"
  let ?f = "''/srv/t/notes.txt''"
  let ?p = "probe_stable sim_ops ?f ?st"
  let ?r = "read_bytes sim_ops ?f (world (snd ?p))"
  have j: "os_path_join ''/srv/t'' ''notes.txt'' = ?f" by code_simp
  have ext: "is_txt ''notes.txt''" by code_simp
  have h1: "fst ?p = Inr True" by code_simp
  have c0: "in_processed sim_ops ?f ''/srv/t/processed'' = Inr False" by code_simp
  have cand: "is_candidate sim_ops (os_path_join ''/srv/t'' ''notes.txt'') ''/srv/t/processed'' ?st (snd ?p)"
    using h1 c0 unfolding j by (simp add: is_candidate_def start_def prod_eq_iff)
  have w1: "world (snd ?p) = subdir_world" by code_simp
  have h2: "fst ?r = Inl (OtherException ''IsADirectoryError'')" by code_simp
  have rb: "read_bytes sim_ops (os_path_join ''/srv/t'' ''notes.txt'') (world (snd ?p)) =
              (Inl (OtherException ''IsADirectoryError''), snd ?r)"
    using h2 unfolding j by (simp add: prod_eq_iff)
  have exc: "is_Exception (OtherException ''IsADirectoryError'')" by simp
  note t = unopenable_entry_is_seen[OF ext cand rb exc, of hook True 5, unfolded j]
  from t have a: "is_Normal (process_file sim_ops hook True ''/srv/t'' ''/srv/t/processed'' ''notes.txt'' ?st)"
    and b: "seen (state_of (process_file sim_ops hook True ''/srv/t'' ''/srv/t/processed'' ''notes.txt'' ?st))
            = {?f}"
    and d: "new_events ?st
       (state_of (process_file sim_ops hook True ''/srv/t'' ''/srv/t/processed'' ''notes.txt'' ?st)) =
     [Getsize First ?f, Sleep (Millis 200), Getsize Second ?f, OpenRead ?f]"
    by (simp_all add: start_def)
  from a b d ext h1 h2 show ?thesis unfolding w1 by simp
qed

text \<open>
  As C9 is stated it fails: a symbolic link \<open>notes.txt\<close> whose target is missing is
  listed and has a \<open>.txt\<close> name, but \<open>os.path.getsize\<close> follows the link and raises,
  so the entry never passes the probe, is never read and is never added to the seen set.
\<close>

theorem dangling_link_is_never_seen:
  "is_txt ''notes.txt'' \<and>
   fst (os_listdir sim_ops ''/srv/t'' link_world) = Inr [''processed'', ''notes.txt''] \<and>
   fst (read_bytes sim_ops ''/srv/t/notes.txt'' link_world) = Inl FileNotFoundError \<and>
   fst (probe_stable sim_ops ''/srv/t/notes.txt'' (start link_world)) = Inl FileNotFoundError \<and>
   while_true 2 sim_ops hook True 5 ''/srv/t'' ''/srv/t/processed'' (start link_world) =
     Normal \<lparr>seen = {}, world = link_world,
             trace = [Listdir ''/srv/t'', Getsize First ''/srv/t/notes.txt'', Sleep (Seconds 5),
                      Listdir ''/srv/t'', Getsize First ''/srv/t/notes.txt'', Sleep (Seconds 5)]\<rparr>"
  by code_simp

text \<open>
  C4, as the code has it: when listing the watch root raises \<open>FileNotFoundError\<close>,
  \<open>ensure_dir\<close> is called on the root and, when that call returns, the cycle goes on with
  no file at all: it only sleeps. An exception of any other class is not handled inside
  the loop: the cycle raises it and the polling loop ends with it.
\<close>

theorem listing_error_handling:
  assumes ls: "os_listdir ops d (world st) = (Inl e, w1)"
  shows "(e = FileNotFoundError \<longrightarrow>
            (\<forall>st2. ensure_dir ops d (st\<lparr>world := w1, trace := trace st @ [Listdir d]\<rparr>) = Normal st2 \<longrightarrow>
               list_files ops d st = (Inr [], st2) \<and>
               cycle ops url stage pi d pd st =
                 (case call (time_sleep ops (Seconds pi)) (Sleep (Seconds pi)) st2 of
                    (Inl e', st3) \<Rightarrow> Raised e' st3
                  | (Inr u, st3) \<Rightarrow> Normal st3))) \<and>
         (e \<noteq> FileNotFoundError \<longrightarrow>
            cycle ops url stage pi d pd st =
              Raised e (st\<lparr>world := w1, trace := trace st @ [Listdir d]\<rparr>) \<and>
            while_true (Suc n) ops url stage pi d pd st =
              Raised e (st\<lparr>world := w1, trace := trace st @ [Listdir d]\<rparr>))"
proof (intro conjI impI allI)
  fix st2
  assume e: "e = FileNotFoundError"
    and en: "ensure_dir ops d (st\<lparr>world := w1, trace := trace st @ [Listdir d]\<rparr>) = Normal st2"
  show lf: "list_files ops d st = (Inr [], st2)"
    using list_files_missing[OF ls[unfolded e]] en by simp
  have ff: "for_files ops url stage d pd (sort []) st2 = Normal st2" by simp
  show "cycle ops url stage pi d pd st =
          (case call (time_sleep ops (Seconds pi)) (Sleep (Seconds pi)) st2 of
             (Inl e', st3) \<Rightarrow> Raised e' st3
           | (Inr u, st3) \<Rightarrow> Normal st3)"
    by (rule cycle_unfold[OF lf ff])
next
  assume ne: "e \<noteq> FileNotFoundError"
  show c: "cycle ops url stage pi d pd st =
          Raised e (st\<lparr>world := w1, trace := trace st @ [Listdir d]\<rparr>)"
    using list_files_raised[OF ls ne] by (simp add: cycle_def)
  show "while_true (Suc n) ops url stage pi d pd st =
          Raised e (st\<lparr>world := w1, trace := trace st @ [Listdir d]\<rparr>)"
    by (rule while_true_first_raised[OF c])
qed

theorem listing_error_handling_witness:
  "fst (os_listdir sim_ops ''/srv/t'' missing_world) = Inl FileNotFoundError \<and>
   ensure_dir sim_ops ''/srv/t''
     ((start missing_world)\<lparr>world := missing_world, trace := [Listdir ''/srv/t'']\<rparr>) =
     Normal \<lparr>seen = {}, world = missing_world\<lparr>fs := [(''/srv'', Directory), (''/srv/t'', Directory)]\<rparr>,
             trace = [Listdir ''/srv/t'', Exists ''/srv/t'', Makedirs ''/srv/t'']\<rparr> \<and>
   cycle sim_ops hook True 5 ''/srv/t'' ''/srv/t/processed'' (start missing_world) =
     Normal \<lparr>seen = {}, world = missing_world\<lparr>fs := [(''/srv'', Directory), (''/srv/t'', Directory)]\<rparr>,
             trace = [Listdir ''/srv/t'', Exists ''/srv/t'', Makedirs ''/srv/t'',
                      Sleep (Seconds 5)]\<rparr>"
proof -
  let ?st = "start missing_world"
  let ?st1 = "?st\<lparr>world := missing_world, trace := [Listdir ''/srv/t'']\<rparr>"
  let ?st2 = "\<lparr>seen = {}, world = missing_world\<lparr>fs := [(''/srv'', Directory), (''/srv/t'', Directory)]\<rparr>,
             trace = [Listdir ''/srv/t'', Exists ''/srv/t'', Makedirs ''/srv/t'']\<rparr>"
  have h: "fst (os_listdir sim_ops ''/srv/t'' missing_world) = Inl FileNotFoundError" by code_simp
  have w: "snd (os_listdir sim_ops ''/srv/t'' missing_world) = missing_world" by code_simp
  have ls: "os_listdir sim_ops ''/srv/t'' (world ?st) = (Inl FileNotFoundError, missing_world)"
    using h w by (simp add: prod_eq_iff start_def)
  have en: "ensure_dir sim_ops ''/srv/t'' ?st1 = Normal ?st2" by code_simp
  have en': "ensure_dir sim_ops ''/srv/t''
               (?st\<lparr>world := missing_world, trace := trace ?st @ [Listdir ''/srv/t'']\<rparr>) = Normal ?st2"
    using en by (simp add: start_def)
  have sl: "(case call (time_sleep sim_ops (Seconds 5)) (Sleep (Seconds 5)) ?st2 of
               (Inl e', st3) \<Rightarrow> Raised e' st3
             | (Inr u, st3) \<Rightarrow> Normal st3) =
            Normal \<lparr>seen = {}, world = missing_world\<lparr>fs := [(''/srv'', Directory), (''/srv/t'', Directory)]\<rparr>,
             trace = [Listdir ''/srv/t'', Exists ''/srv/t'', Makedirs ''/srv/t'',
                      Sleep (Seconds 5)]\<rparr>"
    by code_simp
  from listing_error_handling[OF ls, of hook True 5 "''/srv/t/processed''" 0] en'
  have "cycle sim_ops hook True 5 ''/srv/t'' ''/srv/t/processed'' ?st =
          (case call (time_sleep sim_ops (Seconds 5)) (Sleep (Seconds 5)) ?st2 of
               (Inl e', st3) \<Rightarrow> Raised e' st3
             | (Inr u, st3) \<Rightarrow> Normal st3)"
    by blast
  with sl h en show ?thesis by simp
qed

text \<open>
  As C4 is stated it fails: a watch root that exists but may not be listed makes
  \<open>os.listdir\<close> raise \<open>PermissionError\<close>, which the handler of line 44 does not
  catch; the exception leaves \<open>watch_and_post\<close> in the first cycle.
\<close>

theorem unlistable_root_ends_the_loop:
  "fst (os_listdir sim_ops ''/srv/t'' locked_world) = Inl (OtherException ''PermissionError'') \<and>
   watch_and_post 3 sim_ops ''t'' hook True 5 ''processed'' locked_world =
     Uncaught (OtherException ''PermissionError'')
       \<lparr>seen = {}, world = locked_world,
        trace = [Abspath ''t'', Exists ''/srv/t'', Exists ''/srv/t/processed'', Listdir ''/srv/t'']\<rparr>"
  by code_simp

text \<open>
  C8: in a cycle whose listing returns \<open>names\<close>, the files that reach the size probe are,
  in this order, the entries with a \<open>.txt\<close> name (compared without regard to case), sorted
  by name, without those the archive check finds inside the archive subdirectory and
  without those in the seen set; an archive check that fails excludes nothing. A cycle that
  is cut short by an exception has handled a prefix of this sequence.
\<close>

theorem candidates_as_specified:
  assumes ls: "os_listdir ops d (world st) = (Inr names, w1)"
    and dn: "distinct names"
    and ns: "\<forall>fn \<in> set names. CHR ''/'' \<notin> set fn"
  shows "prefix (first_probes (new_events st (state_of (cycle ops url stage pi d pd st))))
           (spec_candidates ops d pd (seen st) names) \<and>
         (is_Normal (cycle ops url stage pi d pd st) \<longrightarrow>
            first_probes (new_events st (state_of (cycle ops url stage pi d pd st))) =
              spec_candidates ops d pd (seen st) names)"
proof -
  let ?c = "cycle ops url stage pi d pd st"
  let ?st1 = "st\<lparr>world := w1, trace := trace st @ [Listdir d]\<rparr>"
  let ?files = "sort (filter is_txt names)"
  let ?f = "for_files ops url stage d pd ?files ?st1"
  have lf: "list_files ops d st = (Inr (filter is_txt names), ?st1)"
    by (rule list_files_listed[OF ls])
  have inj: "inj_on (os_path_join d) (set ?files)"
    using ns by (intro inj_onI) (auto dest: os_path_join_inj)
  have dist: "distinct (map (os_path_join d) ?files)"
    using dn inj by (simp add: distinct_map)
  from for_files_probes[OF dist, of ops url stage pd ?st1] obtain evs where
    tf: "trace (state_of ?f) = trace ?st1 @ evs"
    and pf: "prefix (first_probes evs)
               (filter (\<lambda>p. in_processed ops p pd \<noteq> Inr True \<and> p \<notin> seen ?st1)
                  (map (os_path_join d) ?files))"
    and nf: "is_Normal ?f \<longrightarrow> first_probes evs =
               filter (\<lambda>p. in_processed ops p pd \<noteq> Inr True \<and> p \<notin> seen ?st1)
                  (map (os_path_join d) ?files)" by blast
  have spec: "filter (\<lambda>p. in_processed ops p pd \<noteq> Inr True \<and> p \<notin> seen ?st1)
                (map (os_path_join d) ?files) = spec_candidates ops d pd (seen st) names"
    by (simp add: spec_candidates_def in_processed_inside_archive
          is_txt_has_txt_extension[abs_def])
  from cycle_shape[of ops d st pi url stage pd] obtain evs0 evs1 evs2 r st1 where
    lf': "list_files ops d st = (r, st1)"
    and m0: "trace st1 = trace st @ evs0"
    and m2: "set evs2 \<subseteq> {Sleep (Seconds pi)}"
    and tr: "trace (state_of ?c) = trace st @ evs0 @ evs1 @ evs2"
    and cs: "case r of
        Inl e \<Rightarrow> evs1 = [] \<and> evs2 = [] \<and> state_of ?c = st1 \<and> \<not> is_Normal ?c
      | Inr files \<Rightarrow>
          trace (state_of (for_files ops url stage d pd (sort files) st1)) = trace st1 @ evs1 \<and>
          seen (state_of ?c) = seen (state_of (for_files ops url stage d pd (sort files) st1)) \<and>
          (is_Normal ?c \<longrightarrow> is_Normal (for_files ops url stage d pd (sort files) st1))"
    by blast
  from lf lf' have r: "r = Inr (filter is_txt names)" and s1: "st1 = ?st1" by simp_all
  from m0 s1 have e0: "evs0 = [Listdir d]" by simp
  from cs r s1 have t1: "trace (state_of ?f) = trace ?st1 @ evs1"
    and n1: "is_Normal ?c \<longrightarrow> is_Normal ?f" by simp_all
  from t1 tf have e1: "evs1 = evs" by simp
  have fp2: "first_probes evs2 = []" using m2 by (induction evs2) auto
  have "new_events st (state_of ?c) = evs0 @ evs1 @ evs2"
    using tr by (rule new_events_append)
  then have fp: "first_probes (new_events st (state_of ?c)) = first_probes evs"
    using e0 e1 fp2 by simp
  show ?thesis
    unfolding fp using pf nf n1 spec by simp
qed


theorem candidates_as_specified_witness:
  "fst (os_listdir sim_ops ''/srv/t'' (world mixed_state)) =
     Inr [''processed'', ''b.txt'', ''notes.md'', ''old.txt'', ''A.TXT'', ''c.txt''] \<and>
   is_Normal (cycle sim_ops hook True 5 ''/srv/t'' ''/srv/t/old.txt'' mixed_state) \<and>
   spec_candidates sim_ops ''/srv/t'' ''/srv/t/old.txt'' (seen mixed_state)
     [''processed'', ''b.txt'', ''notes.md'', ''old.txt'', ''A.TXT'', ''c.txt''] =
     [''/srv/t/A.TXT'', ''/srv/t/b.txt''] \<and>
   first_probes (new_events mixed_state
     (state_of (cycle sim_ops hook True 5 ''/srv/t'' ''/srv/t/old.txt'' mixed_state))) =
     [''/srv/t/A.TXT'', ''/srv/t/b.txt'']"
proof -
  let ?names = "[''processed'', ''b.txt'', ''notes.md'', ''old.txt'', ''A.TXT'', ''c.txt'']"
  let ?l = "os_listdir sim_ops ''/srv/t'' (world mixed_state)"
  have h: "fst ?l = Inr ?names" by code_simp
  have ls: "os_listdir sim_ops ''/srv/t'' (world mixed_state) = (Inr ?names, snd ?l)"
    using h by (simp add: prod_eq_iff)
  have dn: "distinct ?names" by simp
  have ns: "\<forall>fn \<in> set ?names. CHR ''/'' \<notin> set fn" by simp
  have nm: "is_Normal (cycle sim_ops hook True 5 ''/srv/t'' ''/srv/t/old.txt'' mixed_state)"
    by code_simp
  have sp: "spec_candidates sim_ops ''/srv/t'' ''/srv/t/old.txt'' (seen mixed_state) ?names =
              [''/srv/t/A.TXT'', ''/srv/t/b.txt'']"
    by code_simp
  from candidates_as_specified[OF ls dn ns, of hook True 5 "''/srv/t/old.txt''"] nm
  have "first_probes (new_events mixed_state
          (state_of (cycle sim_ops hook True 5 ''/srv/t'' ''/srv/t/old.txt'' mixed_state))) =
        spec_candidates sim_ops ''/srv/t'' ''/srv/t/old.txt'' (seen mixed_state) ?names"
    by blast
  with h nm sp show ?thesis by simp
qed

text \<open>
  C1 fails on the code. The destination is \<open><meeting_id>.<timestamp>.txt\<close> with a timestamp
  of second resolution, and \<open>os.rename\<close> replaces a file at the destination. Two files
  \<open>standup.TXT\<close> and \<open>standup.txt\<close> have the same meeting_id; delivered within the same
  second of one cycle, the second rename replaces the archived copy of the first file,
  whose content \<open>first\<close> is lost.
\<close>

theorem same_second_archive_is_overwritten:
  "cycle sim_ops hook True 5 ''/srv/t'' ''/srv/t/processed'' (start clobber_world) =
     Normal
       \<lparr>seen = {''/srv/t/standup.TXT'', ''/srv/t/standup.txt''},
        world =
          \<lparr>fs = [(''/srv/t'', Directory), (''/srv/t/processed'', Directory),
                 (''/srv/t/processed/standup.20240115T093000Z.txt'', RegularFile ''second'')],
           clock = [], webhook = [], writers = []\<rparr>,
        trace =
          [Listdir ''/srv/t'',
           Getsize First ''/srv/t/standup.TXT'', Sleep (Millis 200),
           Getsize Second ''/srv/t/standup.TXT'', OpenRead ''/srv/t/standup.TXT'',
           Post ''/srv/t/standup.TXT'' hook (make_payload ''standup'' ''first'' True),
           Utcnow ''/srv/t/standup.TXT'',
           Rename ''/srv/t/standup.TXT'' ''/srv/t/processed/standup.20240115T093000Z.txt'',
           Getsize First ''/srv/t/standup.txt'', Sleep (Millis 200),
           Getsize Second ''/srv/t/standup.txt'', OpenRead ''/srv/t/standup.txt'',
           Post ''/srv/t/standup.txt'' hook (make_payload ''standup'' ''second'' True),
           Utcnow ''/srv/t/standup.txt'',
           Rename ''/srv/t/standup.txt'' ''/srv/t/processed/standup.20240115T093000Z.txt'',
           Sleep (Seconds 5)]\<rparr>"
  by code_simp

end
